theory Spec2Isabelle
  imports Complex_Main "HOL-Library.Word"
begin

unbundle bit_operations_syntax

section \<open>AD9361 IIO streaming loopback: the program\<close>

text \<open>
  A shallow embedding of \<^verbatim>\<open>ad9361-iiostream.c\<close>.  The program is an orchestration of
  libiio calls, so the model is a state-passing one: the global handles and the locals of
  \<^verbatim>\<open>main\<close> are fields of a record, every observable action (library call with an effect,
  line printed, row written, 16-bit memory access, process end) is appended to a trace, and
  the library and the device are a record of answer functions \<open>hw\<close>, about which nothing is
  assumed.  A pointer is a number, \<open>0\<close> being \<^verbatim>\<open>NULL\<close>.
\<close>

subsection \<open>Data\<close>

type_synonym handle = nat
type_synonym addr = int

datatype iodev = RX | TX

record stream_cfg =
  bw_hz :: int
  fs_hz :: int
  lo_hz :: int
  gain :: int
  rfport :: string

text \<open>
  The two \<^verbatim>\<open>double\<close> arguments of the capture row are kept as the expressions the code
  evaluates, on the integers it evaluates them from: \<open>Sqrt_of r\<close> is
  \<^verbatim>\<open>(double)sqrt(r)\<close>, \<open>Phase_deg_of q i\<close> is \<^verbatim>\<open>(180/M_PI)*atan((double)q/(double)i)\<close>.
\<close>

datatype dbl = Sqrt_of int | Phase_deg_of int int

datatype arg = AInt int | AStr string | ASize "64 word" | ADbl dbl

datatype event =
    Printf string "arg list"
  | Eprintf string "arg list"
  | Perror string
  | Fprintf handle string "arg list"
  | Fopen string string
  | Fclose handle
  | Signal_install
  | Iio_channel_attr_write_longlong handle string int
  | Iio_channel_attr_read_longlong handle string
  | Iio_channel_attr_write handle string string
  | Iio_channel_attr_read handle string nat
  | Iio_channel_enable handle
  | Iio_channel_disable handle
  | Iio_device_create_buffer handle nat bool
  | Iio_buffer_destroy handle
  | Iio_buffer_push handle
  | Iio_buffer_refill handle
  | Iio_context_destroy handle
  | Store16 addr "16 word"
  | Load16 addr
  | Exit int
  | Abort
  | Undefined

text \<open>
  The library and the device.  The geometry of a buffer and the answer of a refill may
  change from one refill to the next, so they take the number of refills done so far.
  \<open>rx_dma n\<close> is what the \<open>n\<close>-th refill does to memory.  The result of an attribute call
  has the width of its C type: 32 bits for the \<^verbatim>\<open>int\<close> of the two \<^verbatim>\<open>longlong\<close> calls, 64 bits
  for the \<^verbatim>\<open>ssize_t\<close> of \<^verbatim>\<open>iio_channel_attr_write\<close> and \<^verbatim>\<open>iio_channel_attr_read\<close>; both are read
  as signed.  \<open>libm_cos\<close> is the function \<^verbatim>\<open>cos\<close> of the mathematical library, from \<^verbatim>\<open>double\<close> to
  \<^verbatim>\<open>double\<close>, a \<^verbatim>\<open>double\<close> being given by the real number it denotes.
\<close>

record hw =
  iio_create_default_context :: handle
  iio_create_context_from_uri :: "string \<Rightarrow> handle"
  iio_context_get_devices_count :: "handle \<Rightarrow> nat"
  iio_context_find_device :: "handle \<Rightarrow> string \<Rightarrow> handle"
  iio_device_find_channel :: "handle \<Rightarrow> string \<Rightarrow> bool \<Rightarrow> handle"
  iio_channel_attr_write_longlong :: "handle \<Rightarrow> string \<Rightarrow> int \<Rightarrow> 32 word"
  iio_channel_attr_read_longlong :: "handle \<Rightarrow> string \<Rightarrow> 32 word \<times> int"
  iio_channel_attr_write :: "handle \<Rightarrow> string \<Rightarrow> string \<Rightarrow> 64 word"
  iio_channel_attr_read :: "handle \<Rightarrow> string \<Rightarrow> nat \<Rightarrow> 64 word \<times> string"
  iio_device_create_buffer :: "handle \<Rightarrow> nat \<Rightarrow> bool \<Rightarrow> handle"
  iio_buffer_step :: "nat \<Rightarrow> handle \<Rightarrow> int"
  iio_buffer_end :: "nat \<Rightarrow> handle \<Rightarrow> addr"
  iio_buffer_first :: "nat \<Rightarrow> handle \<Rightarrow> handle \<Rightarrow> addr"
  iio_buffer_push :: "handle \<Rightarrow> int"
  iio_buffer_refill :: "nat \<Rightarrow> handle \<Rightarrow> int"
  rx_dma :: "nat \<Rightarrow> (addr \<Rightarrow> 16 word) \<Rightarrow> (addr \<Rightarrow> 16 word)"
  fopen :: "string \<Rightarrow> string \<Rightarrow> handle"
  libm_cos :: "real \<Rightarrow> real"

text \<open>
  The state: the seven static handles and \<^verbatim>\<open>stop\<close>, the locals of \<^verbatim>\<open>main\<close> that outlive a
  statement (\<^verbatim>\<open>nrx\<close>, the two files, the sample time \<^verbatim>\<open>double i\<close> of the fill), memory
  as the 16-bit object at each address, the number of refills done, the number of points
  passed at which a signal can be delivered, and the trace.
\<close>

record st =
  ctx :: handle
  rx0_i :: handle
  rx0_q :: handle
  tx0_i :: handle
  tx0_q :: handle
  rxbuf :: handle
  txbuf :: handle
  stop :: bool
  nrx :: "64 word"
  i_time :: real
  foutp :: handle
  finp :: handle
  mem :: "addr \<Rightarrow> 16 word"
  nrefill :: nat
  tick :: nat
  trace :: "event list"

text \<open>A statement either goes on, with a value, or has ended the process.\<close>

datatype 'a res = Cont 'a st | Halt st

definition bnd :: "'a res \<Rightarrow> ('a \<Rightarrow> st \<Rightarrow> 'b res) \<Rightarrow> 'b res" where
  "bnd r f = (case r of Cont x s \<Rightarrow> f x s | Halt s \<Rightarrow> Halt s)"

definition obnd :: "'a res option \<Rightarrow> ('a \<Rightarrow> st \<Rightarrow> 'b res option) \<Rightarrow> 'b res option" where
  "obnd r f = (case r of None \<Rightarrow> None | Some (Halt s) \<Rightarrow> Some (Halt s) | Some (Cont x s) \<Rightarrow> f x s)"

definition final :: "'a res \<Rightarrow> st" where
  "final r = (case r of Cont x s \<Rightarrow> s | Halt s \<Rightarrow> s)"

definition emit :: "event \<Rightarrow> st \<Rightarrow> st" where
  "emit e s = s\<lparr>trace := trace s @ [e]\<rparr>"

subsection \<open>Floating-point arithmetic\<close>

text \<open>
  A \<^verbatim>\<open>double\<close> or a \<^verbatim>\<open>float\<close> is given by the real number it denotes.  A decimal constant,
  an arithmetic operation and a conversion to the format yield the exact value rounded as
  IEEE 754 has it: to the nearest number with a significand of \<open>p\<close> bits and an exponent of
  at least \<open>emin\<close>, a tie going to the even significand.  Each operation is rounded to
  its own type (\<^verbatim>\<open>FLT_EVAL_METHOD\<close> is 0).
  The exponent has no upper bound here, so a value beyond the largest number of the format
  stays finite where the format has an infinity; no such value fits a \<^verbatim>\<open>short\<close>, and
  converting it is undefined as converting an infinity is.
\<close>

definition rne :: "real \<Rightarrow> int" where
  "rne x =
     (let f = \<lfloor>x\<rfloor>; d = x - of_int f
      in if d < 1 / 2 then f else if 1 / 2 < d then f + 1 else if even f then f else f + 1)"

definition round_to :: "nat \<Rightarrow> int \<Rightarrow> real \<Rightarrow> real" where
  "round_to p emin x =
     (if x = 0 then 0
      else let e = max (\<lfloor>log 2 \<bar>x\<bar>\<rfloor> - int p + 1) emin
           in of_int (rne (x / 2 powr of_int e)) * 2 powr of_int e)"

text \<open>binary64 and binary32.\<close>

definition double_round :: "real \<Rightarrow> real" where
  "double_round = round_to 53 (- 1074)"

definition float_round :: "real \<Rightarrow> real" where
  "float_round = round_to 24 (- 149)"

text \<open>\<^verbatim>\<open>+\<close>, \<^verbatim>\<open>*\<close> and \<^verbatim>\<open>/\<close> on two \<^verbatim>\<open>double\<close>.\<close>

definition dadd :: "real \<Rightarrow> real \<Rightarrow> real" where
  "dadd x y = double_round (x + y)"

definition dmul :: "real \<Rightarrow> real \<Rightarrow> real" where
  "dmul x y = double_round (x * y)"

definition ddiv :: "real \<Rightarrow> real \<Rightarrow> real" where
  "ddiv x y = double_round (x / y)"

text \<open>\<^verbatim>\<open>#define M_PI 3.14159265358979323846\<close> of \<^verbatim>\<open>math.h\<close>.\<close>

definition M_PI :: real where
  "M_PI = double_round 3.14159265358979323846"

subsection \<open>Helper macros\<close>

text \<open>Conversion of a \<^verbatim>\<open>double\<close> to an integer type drops the fraction.\<close>

definition trunc :: "real \<Rightarrow> int" where
  "trunc v = (if v < 0 then \<lceil>v\<rceil> else \<lfloor>v\<rfloor>)"

text \<open>
  \<^verbatim>\<open>((long long)(x*1000000.0 + .5))\<close> and \<^verbatim>\<open>((long long)(x*1000000000.0 + .5))\<close>, on a
  \<^verbatim>\<open>double\<close> \<open>x\<close>.
\<close>

definition MHZ :: "real \<Rightarrow> int" where
  "MHZ x = trunc (dadd (dmul x 1000000) 0.5)"

definition GHZ :: "real \<Rightarrow> int" where
  "GHZ x = trunc (dadd (dmul x 1000000000) 0.5)"

definition FILE_NAME :: string where
  "FILE_NAME = ''ad9361-iiostream.c''"

definition IIO_ENSURE :: "bool \<Rightarrow> int \<Rightarrow> st \<Rightarrow> unit res" where
  "IIO_ENSURE expr line s =
     (if \<not> expr
      then Halt (emit Abort (emit (Eprintf ''assertion failed (%s:%d)\<newline>'' [AStr FILE_NAME, AInt line]) s))
      else Cont () s)"

text \<open>\<^verbatim>\<open>(int) v\<close> for a \<^verbatim>\<open>ssize_t\<close>.\<close>

definition int_cast :: "int \<Rightarrow> int" where
  "int_cast v = sint (word_of_int v :: 32 word)"

subsection \<open>Cleanup and exit, the signal handler\<close>

definition shutdown :: "st \<Rightarrow> 'a res" where
  "shutdown s0 =
     (let s = emit (Printf ''* Destroying buffers\<newline>'' []) s0;
          s = (if rxbuf s \<noteq> 0 then emit (Iio_buffer_destroy (rxbuf s)) s else s);
          s = (if txbuf s \<noteq> 0 then emit (Iio_buffer_destroy (txbuf s)) s else s);
          s = emit (Printf ''* Disabling streaming channels\<newline>'' []) s;
          s = (if rx0_i s \<noteq> 0 then emit (Iio_channel_disable (rx0_i s)) s else s);
          s = (if rx0_q s \<noteq> 0 then emit (Iio_channel_disable (rx0_q s)) s else s);
          s = (if tx0_i s \<noteq> 0 then emit (Iio_channel_disable (tx0_i s)) s else s);
          s = (if tx0_q s \<noteq> 0 then emit (Iio_channel_disable (tx0_q s)) s else s);
          s = emit (Printf ''* Destroying context\<newline>'' []) s;
          s = (if ctx s \<noteq> 0 then emit (Iio_context_destroy (ctx s)) s else s)
      in Halt (emit (Exit 0) s))"

definition SIG_FMT :: string where
  "SIG_FMT = ''Waiting for process to finish... Got signal %d\<newline>''"

definition handle_sig :: "int \<Rightarrow> st \<Rightarrow> st" where
  "handle_sig sig s = (emit (Printf SIG_FMT [AInt sig]) s)\<lparr>stop := True\<rparr>"

text \<open>
  Asynchronous delivery: \<open>sigs n\<close> is the signal, if any, that arrives at the \<open>n\<close>-th
  delivery point the run passes.  The delivery points are the start of streaming, the head
  of every iteration of every streaming loop, and the end of the capture phase.
\<close>

definition deliver :: "(nat \<Rightarrow> int option) \<Rightarrow> st \<Rightarrow> st" where
  "deliver sigs s =
     (let s' = s\<lparr>tick := Suc (tick s)\<rparr>
      in case sigs (tick s) of None \<Rightarrow> s' | Some sig \<Rightarrow> handle_sig sig s')"

subsection \<open>Attribute wrappers\<close>

definition ERR_FMT :: string where
  "ERR_FMT = ''Error %d writing to channel \"%s\"\<newline>value may not be supported.\<newline>''"

text \<open>\<^verbatim>\<open>errchk(int v, const char* what)\<close>.\<close>

definition errchk :: "32 word \<Rightarrow> string \<Rightarrow> st \<Rightarrow> unit res" where
  "errchk v what s =
     (if sint v < 0 then shutdown (emit (Eprintf ERR_FMT [AInt (sint v), AStr what]) s)
      else Cont () s)"

text \<open>
  A \<^verbatim>\<open>ssize_t\<close> passed for the \<^verbatim>\<open>int\<close> parameter of \<^verbatim>\<open>errchk\<close> is converted: the low 32 bits
  are kept.
\<close>

definition int_of_ssize_t :: "64 word \<Rightarrow> 32 word" where
  "int_of_ssize_t v = ucast v"

definition wr_ch_lli :: "hw \<Rightarrow> handle \<Rightarrow> string \<Rightarrow> int \<Rightarrow> st \<Rightarrow> unit res" where
  "wr_ch_lli h chn what val s =
     errchk (iio_channel_attr_write_longlong h chn what val) what
       (emit (Iio_channel_attr_write_longlong chn what val) s)"

definition rd_ch_lli :: "hw \<Rightarrow> handle \<Rightarrow> string \<Rightarrow> st \<Rightarrow> int res" where
  "rd_ch_lli h chn what s =
     (let (v, val) = iio_channel_attr_read_longlong h chn what
      in bnd (errchk v what (emit (Iio_channel_attr_read_longlong chn what) s)) (\<lambda>_. Cont val))"

definition wr_ch_str :: "hw \<Rightarrow> handle \<Rightarrow> string \<Rightarrow> string \<Rightarrow> st \<Rightarrow> unit res" where
  "wr_ch_str h chn what str s =
     errchk (int_of_ssize_t (iio_channel_attr_write h chn what str)) what
       (emit (Iio_channel_attr_write chn what str) s)"

definition rd_ch_str :: "hw \<Rightarrow> handle \<Rightarrow> string \<Rightarrow> nat \<Rightarrow> st \<Rightarrow> string res" where
  "rd_ch_str h chn what len s =
     (let (v, str) = iio_channel_attr_read h chn what len
      in bnd (errchk (int_of_ssize_t v) what (emit (Iio_channel_attr_read chn what len) s))
           (\<lambda>_. Cont str))"

subsection \<open>Finding devices and channels\<close>

function dec_nat :: "nat \<Rightarrow> string" where
  "dec_nat n =
     (if n < 10 then [char_of (48 + n)] else dec_nat (n div 10) @ [char_of (48 + n mod 10)])"
  by pat_completeness auto
termination
  by (relation "measure (\<lambda>n. n)") auto

text \<open>\<^verbatim>\<open>%d\<close>.\<close>

definition dec :: "int \<Rightarrow> string" where
  "dec i = (if i < 0 then ''-'' @ dec_nat (nat (- i)) else dec_nat (nat i))"

text \<open>\<^verbatim>\<open>snprintf(tmpstr, sizeof(tmpstr), "%s%d", type, id)\<close> with \<^verbatim>\<open>char tmpstr[64]\<close>.\<close>

definition get_ch_name :: "string \<Rightarrow> int \<Rightarrow> string" where
  "get_ch_name type idn = take 63 (type @ dec idn)"

definition get_ad9361_phy :: "hw \<Rightarrow> st \<Rightarrow> handle res" where
  "get_ad9361_phy h s =
     (let dev = iio_context_find_device h (ctx s) ''ad9361-phy''
      in bnd (IIO_ENSURE (dev \<noteq> 0) 128 s) (\<lambda>_. Cont dev))"

text \<open>
  A function that returns \<^verbatim>\<open>bool\<close> and writes a handle through its last argument
  returns the pair.
\<close>

definition get_ad9361_stream_dev :: "hw \<Rightarrow> iodev \<Rightarrow> st \<Rightarrow> (bool \<times> handle) res" where
  "get_ad9361_stream_dev h d s =
     (case d of
        TX \<Rightarrow> (let dev = iio_context_find_device h (ctx s) ''cf-ad9361-dds-core-lpc''
               in Cont (dev \<noteq> 0, dev) s)
      | RX \<Rightarrow> (let dev = iio_context_find_device h (ctx s) ''cf-ad9361-lpc''
               in Cont (dev \<noteq> 0, dev) s))"

definition get_ad9361_stream_ch :: "hw \<Rightarrow> iodev \<Rightarrow> handle \<Rightarrow> int \<Rightarrow> st \<Rightarrow> (bool \<times> handle) res" where
  "get_ad9361_stream_ch h d dev chid s =
     (let chn = iio_device_find_channel h dev (get_ch_name ''voltage'' chid) (d = TX);
          chn = (if chn = 0
                 then iio_device_find_channel h dev (get_ch_name ''altvoltage'' chid) (d = TX)
                 else chn)
      in Cont (chn \<noteq> 0, chn) s)"

definition get_phy_chan :: "hw \<Rightarrow> iodev \<Rightarrow> int \<Rightarrow> st \<Rightarrow> (bool \<times> handle) res" where
  "get_phy_chan h d chid s =
     (case d of
        RX \<Rightarrow> bnd (get_ad9361_phy h s) (\<lambda>phy s.
               let chn = iio_device_find_channel h phy (get_ch_name ''voltage'' chid) False
               in Cont (chn \<noteq> 0, chn) s)
      | TX \<Rightarrow> bnd (get_ad9361_phy h s) (\<lambda>phy s.
               let chn = iio_device_find_channel h phy (get_ch_name ''voltage'' chid) True
               in Cont (chn \<noteq> 0, chn) s))"

definition get_lo_chan :: "hw \<Rightarrow> iodev \<Rightarrow> st \<Rightarrow> (bool \<times> handle) res" where
  "get_lo_chan h d s =
     (case d of
        RX \<Rightarrow> bnd (get_ad9361_phy h s) (\<lambda>phy s.
               let chn = iio_device_find_channel h phy (get_ch_name ''altvoltage'' 0) True
               in Cont (chn \<noteq> 0, chn) s)
      | TX \<Rightarrow> bnd (get_ad9361_phy h s) (\<lambda>phy s.
               let chn = iio_device_find_channel h phy (get_ch_name ''altvoltage'' 1) True
               in Cont (chn \<noteq> 0, chn) s))"

subsection \<open>Applying a streaming configuration\<close>

text \<open>The gain block of \<^verbatim>\<open>cfg_ad9361_streaming_ch\<close> (lines 188 to 201).\<close>

definition cfg_gain :: "hw \<Rightarrow> stream_cfg \<Rightarrow> iodev \<Rightarrow> handle \<Rightarrow> st \<Rightarrow> unit res" where
  "cfg_gain h cfg type chn s =
     (if type = TX then
        bnd (wr_ch_lli h chn ''hardwaregain'' (gain cfg) s) (\<lambda>_ s.
        bnd (rd_ch_lli h chn ''hardwaregain'' s) (\<lambda>ll_data s.
        Cont () (emit (Printf ''* TX gain/attenuation value %lld\<newline>'' [AInt ll_data]) s)))
      else
        bnd (wr_ch_str h chn ''gain_control_mode'' ''manual'' s) (\<lambda>_ s.
        bnd (rd_ch_str h chn ''gain_control_mode'' 1024 s) (\<lambda>buf s.
        bnd (wr_ch_lli h chn ''hardwaregain'' (gain cfg) s) (\<lambda>_ s.
        bnd (rd_ch_lli h chn ''hardwaregain'' s) (\<lambda>ll_data s.
        Cont () (emit (Printf ''* RX gain is %lld, mode is %s\<newline>'' [AInt ll_data, AStr buf]) s))))))"

definition cfg_ad9361_streaming_ch :: "hw \<Rightarrow> stream_cfg \<Rightarrow> iodev \<Rightarrow> int \<Rightarrow> st \<Rightarrow> bool res" where
  "cfg_ad9361_streaming_ch h cfg type chid s =
     bnd (get_phy_chan h type chid
            (emit (Printf ''* Acquiring AD9361 phy channel %d\<newline>'' [AInt chid]) s)) (\<lambda>(ok, chn) s.
     if \<not> ok then Cont False s else
     bnd (wr_ch_str h chn ''rf_port_select'' (rfport cfg) s) (\<lambda>_ s.
     bnd (wr_ch_lli h chn ''rf_bandwidth'' (bw_hz cfg) s) (\<lambda>_ s.
     bnd (wr_ch_lli h chn ''sampling_frequency'' (fs_hz cfg) s) (\<lambda>_ s.
     bnd (cfg_gain h cfg type chn s) (\<lambda>_ s.
     bnd (get_lo_chan h type
            (emit (Printf ''* Acquiring AD9361 %s lo channel\<newline>''
                     [AStr (if type = TX then ''TX'' else ''RX'')]) s)) (\<lambda>(ok, chn) s.
     if \<not> ok then Cont False s else
     bnd (wr_ch_lli h chn ''frequency'' (lo_hz cfg) s) (\<lambda>_ s.
     Cont True s)))))))"

subsection \<open>Walking a buffer\<close>

text \<open>
  \<^verbatim>\<open>for (p_dat = first; p_dat < p_end; p_dat += p_inc) body\<close>.  Nothing makes
  \<^verbatim>\<open>p_inc\<close> positive, so the loop may run forever: then it has no result.
\<close>

partial_function (option) for_each_elem ::
    "(addr \<Rightarrow> st \<Rightarrow> unit res) \<Rightarrow> addr \<Rightarrow> addr \<Rightarrow> int \<Rightarrow> st \<Rightarrow> unit res option" where
  "for_each_elem body p_dat p_end p_inc s =
     (if p_dat < p_end
      then (case body p_dat s of
              Cont _ s' \<Rightarrow> for_each_elem body (p_dat + p_inc) p_end p_inc s'
            | Halt s' \<Rightarrow> Some (Halt s'))
      else Some (Cont () s))"

definition load16 :: "addr \<Rightarrow> st \<Rightarrow> st" where
  "load16 a s = emit (Load16 a) s"

definition store16 :: "addr \<Rightarrow> 16 word \<Rightarrow> st \<Rightarrow> st" where
  "store16 a v s = (emit (Store16 a v) s)\<lparr>mem := (mem s)(a := v)\<rparr>"

subsection \<open>The stream configurations of the main function (lines 237 to 257)\<close>

definition rxcfg :: stream_cfg where
  "rxcfg = \<lparr>bw_hz = MHZ 0.5, fs_hz = MHZ 3, lo_hz = GHZ 2.5, gain = 50, rfport = ''A_BALANCED''\<rparr>"

definition txcfg :: stream_cfg where
  "txcfg = \<lparr>bw_hz = MHZ 0.5, fs_hz = MHZ 3, lo_hz = GHZ 2.5, gain = - 30, rfport = ''A''\<rparr>"

subsection \<open>Transmit: fill and push (lines 306 to 343)\<close>

text \<open>
  \<^verbatim>\<open>float freq = 2.0 * M_PI * 50.0e3\<close>: the product of three \<^verbatim>\<open>double\<close>, converted to \<^verbatim>\<open>float\<close>.
  \<^verbatim>\<open>double ampl = 48\<close>.
\<close>

definition freq :: real where
  "freq = float_round (dmul (dmul 2 M_PI) 50000)"

definition ampl :: real where
  "ampl = 48"

text \<open>
  \<^verbatim>\<open>short qpart = <double>\<close>: the fraction is dropped; the behaviour is undefined when the
  integer does not fit.
\<close>

definition short_of_double :: "real \<Rightarrow> 16 word option" where
  "short_of_double v =
     (let t = trunc v in if - 32768 \<le> t \<and> t \<le> 32767 then Some (word_of_int t) else None)"

text \<open>
  The body of the fill loop.  In \<^verbatim>\<open>ampl * cos(freq * i) * 16\<close> the \<^verbatim>\<open>float freq\<close> and the
  \<^verbatim>\<open>int 16\<close> are converted to \<^verbatim>\<open>double\<close>, which changes neither; in \<^verbatim>\<open>1. / txcfg.fs_hz\<close> the
  \<^verbatim>\<open>long long\<close> is, by rounding.
\<close>

definition tx_body :: "hw \<Rightarrow> (nat \<Rightarrow> int option) \<Rightarrow> addr \<Rightarrow> st \<Rightarrow> unit res" where
  "tx_body h sigs p_dat s0 =
     (let s = deliver sigs s0;
          ipart = (0 :: 16 word)
      in case short_of_double (dmul (dmul ampl (libm_cos h (dmul freq (i_time s)))) 16) of
           None \<Rightarrow> Halt (emit Undefined s)
         | Some qpart \<Rightarrow>
             (let s = store16 p_dat (ipart AND 0xFFF0) s;
                  s = store16 (p_dat + 2) (qpart AND 0xFFF0) s;
                  s = load16 (p_dat + 2) (load16 p_dat s)
              in if finp s = 0 then Halt (emit Undefined s)
                 else Cont ()
                   ((emit (Fprintf (finp s) ''%d, %d\<newline>''
                      [AInt (sint (mem s p_dat)), AInt (sint (mem s (p_dat + 2)))]) s)
                    \<lparr>i_time := dadd (i_time s) (ddiv 1 (double_round (of_int (fs_hz txcfg))))\<rparr>)))"

definition tx_section :: "hw \<Rightarrow> (nat \<Rightarrow> int option) \<Rightarrow> st \<Rightarrow> unit res option" where
  "tx_section h sigs s0 =
     (let s = deliver sigs (emit (Printf ''* Starting IO streaming\<newline>'' []) s0);
          s = s\<lparr>i_time := ddiv 1 (double_round (of_int (fs_hz txcfg)))\<rparr>;
          p_inc = iio_buffer_step h (nrefill s) (txbuf s);
          p_end = iio_buffer_end h (nrefill s) (txbuf s)
      in obnd (for_each_elem (tx_body h sigs)
                 (iio_buffer_first h (nrefill s) (txbuf s) (tx0_i s)) p_end p_inc s) (\<lambda>_ s.
         let nbytes_tx = iio_buffer_push h (txbuf s);
             s = emit (Iio_buffer_push (txbuf s)) s
         in if nbytes_tx < 0
            then Some (shutdown (emit (Printf ''Error pushing buf %d\<newline>'' [AInt (int_cast nbytes_tx)]) s))
            else Some (Cont () s)))"

subsection \<open>Receive: warm-up and capture (lines 347 to 384)\<close>

definition refill :: "hw \<Rightarrow> st \<Rightarrow> unit res" where
  "refill h s0 =
     (let nbytes_rx = iio_buffer_refill h (nrefill s0) (rxbuf s0);
          s = (emit (Iio_buffer_refill (rxbuf s0)) s0)
                \<lparr>mem := rx_dma h (nrefill s0) (mem s0), nrefill := Suc (nrefill s0)\<rparr>
      in if nbytes_rx < 0
         then shutdown (emit (Printf ''Error refilling buf %d\<newline>'' [AInt (int_cast nbytes_rx)]) s)
         else Cont () s)"

definition warmup_body :: "(nat \<Rightarrow> int option) \<Rightarrow> addr \<Rightarrow> st \<Rightarrow> unit res" where
  "warmup_body sigs p_dat s0 = (let s = deliver sigs s0 in Cont () (s\<lparr>nrx := nrx s + 1\<rparr>))"

text \<open>\<^verbatim>\<open>(i*i)+(q*q)\<close> on two \<^verbatim>\<open>int16_t\<close>: both are promoted to a 32-bit \<^verbatim>\<open>int\<close>.\<close>

definition radicand :: "16 word \<Rightarrow> 16 word \<Rightarrow> 32 word" where
  "radicand i q = (scast i * scast i) + (scast q * scast q)"

definition ROW_FMT :: string where
  "ROW_FMT = ''%d, %d, %.4f, %.4f\<newline>''"

definition capture_body :: "(nat \<Rightarrow> int option) \<Rightarrow> addr \<Rightarrow> st \<Rightarrow> unit res" where
  "capture_body sigs p_dat s0 =
     (let s = deliver sigs s0;
          i = mem s p_dat;
          q = mem s (p_dat + 2);
          s = load16 (p_dat + 2) (load16 p_dat s);
          s = s\<lparr>nrx := nrx s + 1\<rparr>
      in if foutp s = 0 then Halt (emit Undefined s)
         else Cont ()
           (emit (Fprintf (foutp s) ROW_FMT
              [AInt (sint i), AInt (sint q),
               ADbl (Sqrt_of (sint (radicand i q))),
               ADbl (Phase_deg_of (sint q) (sint i))]) s))"

text \<open>One iteration of a receive loop: refill, then walk the buffer.\<close>

definition rx_iteration ::
    "hw \<Rightarrow> (nat \<Rightarrow> int option) \<Rightarrow> (addr \<Rightarrow> st \<Rightarrow> unit res) \<Rightarrow> st \<Rightarrow> unit res option" where
  "rx_iteration h sigs body s0 =
     obnd (Some (refill h (deliver sigs s0))) (\<lambda>_ s.
       let p_inc = iio_buffer_step h (nrefill s) (rxbuf s);
           p_end = iio_buffer_end h (nrefill s) (rxbuf s)
       in for_each_elem body (iio_buffer_first h (nrefill s) (rxbuf s) (rx0_i s)) p_end p_inc s)"

text \<open>\<^verbatim>\<open>for (; rx_loop < n; rx_loop++)\<close>.\<close>

function rx_for ::
    "hw \<Rightarrow> (nat \<Rightarrow> int option) \<Rightarrow> (addr \<Rightarrow> st \<Rightarrow> unit res) \<Rightarrow> int \<Rightarrow> int \<Rightarrow> st \<Rightarrow> unit res option" where
  "rx_for h sigs body rx_loop n s =
     (if rx_loop < n
      then (case rx_iteration h sigs body s of
              None \<Rightarrow> None
            | Some (Halt s') \<Rightarrow> Some (Halt s')
            | Some (Cont _ s') \<Rightarrow> rx_for h sigs body (rx_loop + 1) n s')
      else Some (Cont () s))"
  by pat_completeness auto
termination
  by (relation "measure (\<lambda>(h, sigs, body, rx_loop, n, s). nat (n - rx_loop))") auto

definition rx_warmup :: "hw \<Rightarrow> (nat \<Rightarrow> int option) \<Rightarrow> st \<Rightarrow> unit res option" where
  "rx_warmup h sigs s = rx_for h sigs (warmup_body sigs) 0 2 s"

definition rx_capture :: "hw \<Rightarrow> (nat \<Rightarrow> int option) \<Rightarrow> st \<Rightarrow> unit res option" where
  "rx_capture h sigs s = rx_for h sigs (capture_body sigs) 0 40 s"

definition DUMPED_FMT :: string where
  "DUMPED_FMT = ''* data values dumped RX %d\<newline>''"

definition RECEIVED_FMT :: string where
  "RECEIVED_FMT = ''* data values received RX %d\<newline>''"

definition rx_section :: "hw \<Rightarrow> (nat \<Rightarrow> int option) \<Rightarrow> st \<Rightarrow> unit res option" where
  "rx_section h sigs s0 =
     obnd (rx_warmup h sigs s0) (\<lambda>_ s.
     let s = emit (Printf DUMPED_FMT [ASize (nrx s)]) s;
         s = s\<lparr>nrx := 0\<rparr>
     in obnd (rx_capture h sigs s) (\<lambda>_ s.
        Some (Cont () (deliver sigs (emit (Printf RECEIVED_FMT [ASize (nrx s)]) s)))))"

subsection \<open>The main function\<close>

text \<open>
  Lines 259 to 266.  With more than one argument \<^verbatim>\<open>ctx\<close> is still \<^verbatim>\<open>NULL\<close> when the
  device count is read through it.
\<close>

definition main_context :: "hw \<Rightarrow> string list \<Rightarrow> st \<Rightarrow> unit res" where
  "main_context h argv s0 =
     (let s = emit (Printf ''* Acquiring IIO context\<newline>'' []) s0;
          argc = length argv
      in bnd (if argc = 1 then
                (let s = s\<lparr>ctx := iio_create_default_context h\<rparr>
                 in IIO_ENSURE (ctx s \<noteq> 0) 261 s)
              else if argc = 2 then
                (let s = s\<lparr>ctx := iio_create_context_from_uri h (argv ! 1)\<rparr>
                 in IIO_ENSURE (ctx s \<noteq> 0) 264 s)
              else Cont () s) (\<lambda>_ s.
         if ctx s = 0 then Halt (emit Undefined s)
         else IIO_ENSURE (0 < iio_context_get_devices_count h (ctx s)) 266 s))"

text \<open>Lines 268 to 270; the result is \<^verbatim>\<open>(tx, rx)\<close>.\<close>

definition main_devices :: "hw \<Rightarrow> st \<Rightarrow> (handle \<times> handle) res" where
  "main_devices h s0 =
     bnd (get_ad9361_stream_dev h TX
            (emit (Printf ''* Acquiring AD9361 streaming devices\<newline>'' []) s0)) (\<lambda>(ok, tx) s.
     bnd (IIO_ENSURE ok 269 s) (\<lambda>_ s.
     bnd (get_ad9361_stream_dev h RX s) (\<lambda>(ok, rx) s.
     bnd (IIO_ENSURE ok 270 s) (\<lambda>_ s.
     Cont (tx, rx) s))))"

text \<open>Lines 272 to 274.\<close>

definition main_configure :: "hw \<Rightarrow> st \<Rightarrow> unit res" where
  "main_configure h s0 =
     bnd (cfg_ad9361_streaming_ch h rxcfg RX 0
            (emit (Printf ''* Configuring AD9361 for streaming\<newline>'' []) s0)) (\<lambda>ok s.
     bnd (IIO_ENSURE ok 273 s) (\<lambda>_ s.
     bnd (cfg_ad9361_streaming_ch h txcfg TX 0 s) (\<lambda>ok s.
     IIO_ENSURE ok 274 s)))"

text \<open>Lines 276 to 286.\<close>

definition main_channels :: "hw \<Rightarrow> handle \<Rightarrow> handle \<Rightarrow> st \<Rightarrow> unit res" where
  "main_channels h tx rx s0 =
     bnd (get_ad9361_stream_ch h RX rx 0
            (emit (Printf ''* Initializing AD9361 IIO streaming channels\<newline>'' []) s0)) (\<lambda>(ok, chn) s.
     bnd (IIO_ENSURE ok 277 (s\<lparr>rx0_i := chn\<rparr>)) (\<lambda>_ s.
     bnd (get_ad9361_stream_ch h RX rx 1 s) (\<lambda>(ok, chn) s.
     bnd (IIO_ENSURE ok 278 (s\<lparr>rx0_q := chn\<rparr>)) (\<lambda>_ s.
     bnd (get_ad9361_stream_ch h TX tx 0 s) (\<lambda>(ok, chn) s.
     bnd (IIO_ENSURE ok 279 (s\<lparr>tx0_i := chn\<rparr>)) (\<lambda>_ s.
     bnd (get_ad9361_stream_ch h TX tx 1 s) (\<lambda>(ok, chn) s.
     bnd (IIO_ENSURE ok 280 (s\<lparr>tx0_q := chn\<rparr>)) (\<lambda>_ s.
     let s = emit (Printf ''* Enabling IIO streaming channels\<newline>'' []) s;
         s = emit (Iio_channel_enable (rx0_i s)) s;
         s = emit (Iio_channel_enable (rx0_q s)) s;
         s = emit (Iio_channel_enable (tx0_i s)) s;
         s = emit (Iio_channel_enable (tx0_q s)) s
     in Cont () s))))))))"

text \<open>Lines 288 to 300.\<close>

definition main_buffers :: "hw \<Rightarrow> handle \<Rightarrow> handle \<Rightarrow> st \<Rightarrow> unit res" where
  "main_buffers h tx rx s0 =
     (let s = emit (Printf ''* Creating non-cyclic IIO buffers\<newline>'' []) s0;
          s = (emit (Iio_device_create_buffer rx 256 False) s)
                \<lparr>rxbuf := iio_device_create_buffer h rx 256 False\<rparr>
      in bnd (if rxbuf s = 0
              then shutdown (emit (Perror ''Could not create RX buffer'') s)
              else Cont () s) (\<lambda>_ s.
         let s = (emit (Iio_device_create_buffer tx (256 * 4) False) s)
                   \<lparr>txbuf := iio_device_create_buffer h tx (256 * 4) False\<rparr>
         in if txbuf s = 0
            then shutdown (emit (Perror ''Could not create TX buffer'') s)
            else Cont () s))"

text \<open>Lines 303 and 304.\<close>

definition main_files :: "hw \<Rightarrow> st \<Rightarrow> st" where
  "main_files h s0 =
     (let s = (emit (Fopen ''output.csv'' ''w+'') s0)\<lparr>foutp := fopen h ''output.csv'' ''w+''\<rparr>;
          s = (emit (Fopen ''input.csv'' ''w+'') s)\<lparr>finp := fopen h ''input.csv'' ''w+''\<rparr>
      in s)"

text \<open>Lines 385 to 388; \<^verbatim>\<open>fclose(NULL)\<close> is undefined.\<close>

definition main_finish :: "st \<Rightarrow> unit res" where
  "main_finish s =
     (if finp s = 0 then Halt (emit Undefined s)
      else let s = emit (Fclose (finp s)) s
      in if foutp s = 0 then Halt (emit Undefined s)
      else shutdown (emit (Fclose (foutp s)) s))"

definition init :: st where
  "init = \<lparr>ctx = 0, rx0_i = 0, rx0_q = 0, tx0_i = 0, tx0_q = 0, rxbuf = 0, txbuf = 0,
            stop = False, nrx = 0, i_time = 0, foutp = 0, finp = 0, mem = (\<lambda>_. 0),
            nrefill = 0, tick = 0, trace = []\<rparr>"

definition main_setup :: "hw \<Rightarrow> string list \<Rightarrow> st \<Rightarrow> unit res" where
  "main_setup h argv s0 =
     bnd (main_context h argv (emit Signal_install s0)) (\<lambda>_ s.
     bnd (main_devices h s) (\<lambda>(tx, rx) s.
     bnd (main_configure h s) (\<lambda>_ s.
     bnd (main_channels h tx rx s) (\<lambda>_ s.
     bnd (main_buffers h tx rx s) (\<lambda>_ s.
     Cont () (main_files h s))))))"

definition main :: "hw \<Rightarrow> (nat \<Rightarrow> int option) \<Rightarrow> string list \<Rightarrow> unit res option" where
  "main h sigs argv =
     obnd (Some (main_setup h argv init)) (\<lambda>_ s.
     obnd (tx_section h sigs s) (\<lambda>_ s.
     obnd (rx_section h sigs s) (\<lambda>_ s.
     Some (main_finish s))))"

subsection \<open>Reading a trace\<close>

text \<open>The handles a trace releases, in order.\<close>

fun released :: "event \<Rightarrow> handle option" where
  "released (Iio_buffer_destroy b) = Some b"
| "released (Iio_channel_disable c) = Some c"
| "released (Iio_context_destroy c) = Some c"
| "released _ = None"

definition releases :: "event list \<Rightarrow> event list" where
  "releases tr = filter (\<lambda>e. released e \<noteq> None) tr"


text \<open>What a statement appended to the trace.\<close>

definition new_events :: "st \<Rightarrow> st \<Rightarrow> event list" where
  "new_events s s' = drop (length (trace s)) (trace s')"

text \<open>The seven resources, in the order in which \<^verbatim>\<open>shutdown\<close> looks at them.\<close>

definition slots :: "st \<Rightarrow> event list" where
  "slots s = [Iio_buffer_destroy (rxbuf s), Iio_buffer_destroy (txbuf s),
              Iio_channel_disable (rx0_i s), Iio_channel_disable (rx0_q s),
              Iio_channel_disable (tx0_i s), Iio_channel_disable (tx0_q s),
              Iio_context_destroy (ctx s)]"

definition guarded :: "handle \<Rightarrow> event \<Rightarrow> event list" where
  "guarded p e = (if p \<noteq> 0 then [e] else [])"

definition shutdown_events :: "st \<Rightarrow> event list" where
  "shutdown_events s =
     [Printf ''* Destroying buffers\<newline>'' []] @
     guarded (rxbuf s) (Iio_buffer_destroy (rxbuf s)) @
     guarded (txbuf s) (Iio_buffer_destroy (txbuf s)) @
     [Printf ''* Disabling streaming channels\<newline>'' []] @
     guarded (rx0_i s) (Iio_channel_disable (rx0_i s)) @
     guarded (rx0_q s) (Iio_channel_disable (rx0_q s)) @
     guarded (tx0_i s) (Iio_channel_disable (tx0_i s)) @
     guarded (tx0_q s) (Iio_channel_disable (tx0_q s)) @
     [Printf ''* Destroying context\<newline>'' []] @
     guarded (ctx s) (Iio_context_destroy (ctx s)) @ [Exit 0]"

text \<open>A run that stopped after the context, the two receive channels and the receive buffer.\<close>

definition s_partial :: st where
  "s_partial = init\<lparr>ctx := 1, rx0_i := 2, rx0_q := 3, rxbuf := 4\<rparr>"

definition halted :: "'a res \<Rightarrow> bool" where
  "halted r = (case r of Cont x s \<Rightarrow> False | Halt s \<Rightarrow> True)"


text \<open>
  A library and device with which every step succeeds, the cosine being the exact one
  rounded to \<^verbatim>\<open>double\<close>; and one that rejects every attribute call with \<^verbatim>\<open>-EINVAL\<close>.
\<close>

definition hw_ok :: hw where
  "hw_ok = \<lparr>
     iio_create_default_context = 1,
     iio_create_context_from_uri = (\<lambda>uri. 1),
     iio_context_get_devices_count = (\<lambda>c. 3),
     iio_context_find_device = (\<lambda>c name.
        if name = ''ad9361-phy'' then 2
        else if name = ''cf-ad9361-dds-core-lpc'' then 3
        else if name = ''cf-ad9361-lpc'' then 4 else 0),
     iio_device_find_channel = (\<lambda>dev name out.
        10 * dev + (if out then 5 else 0) +
        (if name = ''voltage0'' then 1 else if name = ''voltage1'' then 2
         else if name = ''altvoltage0'' then 3 else if name = ''altvoltage1'' then 4 else 0)),
     iio_channel_attr_write_longlong = (\<lambda>chn what val. 0),
     iio_channel_attr_read_longlong = (\<lambda>chn what. (0, 50)),
     iio_channel_attr_write = (\<lambda>chn what str. of_nat (length str) + 1),
     iio_channel_attr_read = (\<lambda>chn what len. (7, ''manual'')),
     iio_device_create_buffer = (\<lambda>dev n cyclic. 100 + dev),
     iio_buffer_step = (\<lambda>n b. 4),
     iio_buffer_end = (\<lambda>n b. 65536 * int b + (if b = 103 then 4 * 1024 else 4 * 256)),
     iio_buffer_first = (\<lambda>n b chn. 65536 * int b),
     iio_buffer_push = (\<lambda>b. 4096),
     iio_buffer_refill = (\<lambda>n b. 1024),
     rx_dma = (\<lambda>n m a. if a mod 4 = 0 then 3 else 4),
     fopen = (\<lambda>name mode. if name = ''output.csv'' then 200 else 201),
     libm_cos = (\<lambda>x. double_round (cos x))\<rparr>"

definition hw_attr_fail :: hw where
  "hw_attr_fail = hw_ok\<lparr>
     iio_channel_attr_write_longlong := (\<lambda>chn what val. - 22),
     iio_channel_attr_read_longlong := (\<lambda>chn what. (- 22, 0)),
     iio_channel_attr_write := (\<lambda>chn what str. - 22),
     iio_channel_attr_read := (\<lambda>chn what len. (- 22, []))\<rparr>"

text \<open>Libraries that differ from \<open>hw_ok\<close> in the answer to one attribute call only.\<close>

definition hw_rd_fail :: hw where
  "hw_rd_fail = hw_ok\<lparr>iio_channel_attr_read := (\<lambda>chn what len. (- 22, []))\<rparr>"

definition hw_rdll_fail :: hw where
  "hw_rdll_fail = hw_ok\<lparr>iio_channel_attr_read_longlong := (\<lambda>chn what. (- 22, 0))\<rparr>"

definition hw_wrll_fail :: hw where
  "hw_wrll_fail = hw_ok\<lparr>iio_channel_attr_write_longlong := (\<lambda>chn what val. - 22)\<rparr>"


subsection \<open>Reading a run\<close>

text \<open>
  The walk of a buffer, unrolled: \<open>iter body n p inc\<close> runs the body at \<open>p\<close>,
  \<open>p + inc\<close>, ..., \<open>n\<close> times or until the process ends.  \<open>n_elems\<close> is the number of
  elements a walk with a positive step visits.
\<close>

fun iter :: "(addr \<Rightarrow> st \<Rightarrow> unit res) \<Rightarrow> nat \<Rightarrow> addr \<Rightarrow> int \<Rightarrow> st \<Rightarrow> unit res" where
  "iter body 0 p inc s = Cont () s"
| "iter body (Suc n) p inc s =
     (case body p s of Cont _ s' \<Rightarrow> iter body n (p + inc) inc s' | Halt s' \<Rightarrow> Halt s')"

definition n_elems :: "addr \<Rightarrow> addr \<Rightarrow> int \<Rightarrow> nat" where
  "n_elems p_first p_end p_inc =
     (if p_first < p_end then nat ((p_end - p_first + p_inc - 1) div p_inc) else 0)"

text \<open>
  What the signal handler leaves behind: its message in the trace, the flag \<^verbatim>\<open>stop\<close>, and,
  in this model, the count of delivery points.  \<open>prog\<close> is a trace without the handler's
  messages, \<open>erase\<close> a state without the three.
\<close>

fun is_sig_msg :: "event \<Rightarrow> bool" where
  "is_sig_msg (Printf f a) = (f = SIG_FMT)"
| "is_sig_msg _ = False"

definition prog :: "event list \<Rightarrow> event list" where
  "prog tr = filter (\<lambda>e. \<not> is_sig_msg e) tr"

definition erase :: "st \<Rightarrow> st" where
  "erase s = s\<lparr>stop := False, tick := 0, trace := prog (trace s)\<rparr>"

definition erase_res :: "'a res \<Rightarrow> 'a res" where
  "erase_res r = (case r of Cont x s \<Rightarrow> Cont x (erase s) | Halt s \<Rightarrow> Halt (erase s))"

definition erase_opt :: "'a res option \<Rightarrow> 'a res option" where
  "erase_opt r = map_option erase_res r"

definition sig_events :: "(nat \<Rightarrow> int option) \<Rightarrow> nat \<Rightarrow> event list" where
  "sig_events sigs n = (case sigs n of None \<Rightarrow> [] | Some sig \<Rightarrow> [Printf SIG_FMT [AInt sig]])"

definition no_sigs :: "nat \<Rightarrow> int option" where
  "no_sigs = (\<lambda>n. None)"

text \<open>
  The fill, read off the loop: \<open>tx_time k\<close> is the \<^verbatim>\<open>double i\<close> in iteration \<open>k\<close>, which
  starts at \<^verbatim>\<open>1. / 3000000\<close> and has had \<^verbatim>\<open>1. / 3000000\<close> added \<open>k\<close> times; \<open>tx_wave h k\<close> is
  the \<^verbatim>\<open>double\<close> \<^verbatim>\<open>ampl * cos(freq * i) * 16\<close> of that iteration, with 48 for \<^verbatim>\<open>ampl\<close> and
  314159.25 for \<^verbatim>\<open>freq\<close>.
\<close>

primrec tx_time :: "nat \<Rightarrow> real" where
  "tx_time 0 = ddiv 1 3000000"
| "tx_time (Suc k) = dadd (tx_time k) (ddiv 1 3000000)"

definition tx_wave :: "hw \<Rightarrow> nat \<Rightarrow> real" where
  "tx_wave h k = dmul (dmul 48 (libm_cos h (dmul 314159.25 (tx_time k)))) 16"

text \<open>
  The value the fill stores for a \<^verbatim>\<open>double\<close> \<open>v\<close> that fits a \<^verbatim>\<open>short\<close>, and what one
  iteration of the fill loop and of the capture loop append to the trace.
\<close>

definition q_sample :: "real \<Rightarrow> 16 word" where
  "q_sample v = word_of_int (trunc v) AND 0xFFF0"

definition tx_events :: "hw \<Rightarrow> handle \<Rightarrow> nat \<Rightarrow> addr \<Rightarrow> event list" where
  "tx_events h f k p =
     [Store16 p 0, Store16 (p + 2) (q_sample (tx_wave h k)), Load16 p, Load16 (p + 2),
      Fprintf f ''%d, %d\<newline>'' [AInt 0, AInt (sint (q_sample (tx_wave h k)))]]"

definition capture_events :: "handle \<Rightarrow> (addr \<Rightarrow> 16 word) \<Rightarrow> addr \<Rightarrow> event list" where
  "capture_events f m p =
     [Load16 p, Load16 (p + 2),
      Fprintf f ROW_FMT
        [AInt (sint (m p)), AInt (sint (m (p + 2))),
         ADbl (Sqrt_of (sint (radicand (m p) (m (p + 2))))),
         ADbl (Phase_deg_of (sint (m (p + 2))) (sint (m p)))]]"

fun is_store :: "event \<Rightarrow> bool" where
  "is_store (Store16 a v) = True"
| "is_store _ = False"

fun is_row :: "handle \<Rightarrow> event \<Rightarrow> bool" where
  "is_row f (Fprintf g fmt a) = (g = f)"
| "is_row f _ = False"

text \<open>The state \<open>hw_ok\<close> leaves when streaming starts, with an empty trace.\<close>

definition s_streaming :: st where
  "s_streaming = init\<lparr>ctx := 1, rx0_i := 41, rx0_q := 42, tx0_i := 36, tx0_q := 37,
                       rxbuf := 104, txbuf := 103, foutp := 200, finp := 201\<rparr>"

text \<open>What a run wrote to its two files, and how many refills it made.\<close>

fun is_file_row :: "event \<Rightarrow> bool" where
  "is_file_row (Fprintf f fmt a) = True"
| "is_file_row _ = False"

fun is_refill :: "event \<Rightarrow> bool" where
  "is_refill (Iio_buffer_refill b) = True"
| "is_refill _ = False"

definition file_rows :: "unit res option \<Rightarrow> event list option" where
  "file_rows r = map_option (\<lambda>r. filter is_file_row (trace (final r))) r"

definition refill_count :: "unit res option \<Rightarrow> nat option" where
  "refill_count r = map_option (\<lambda>r. length (filter is_refill (trace (final r)))) r"

text \<open>The number of elements of the receive buffer as it reports itself after \<open>k\<close> refills.\<close>

definition rx_elems :: "hw \<Rightarrow> nat \<Rightarrow> st \<Rightarrow> nat" where
  "rx_elems h k s =
     n_elems (iio_buffer_first h k (rxbuf s) (rx0_i s)) (iio_buffer_end h k (rxbuf s))
       (iio_buffer_step h k (rxbuf s))"

text \<open>The two lines that report the sample counter.\<close>

fun is_report :: "event \<Rightarrow> bool" where
  "is_report (Printf f a) = (f = DUMPED_FMT \<or> f = RECEIVED_FMT)"
| "is_report _ = False"

text \<open>
  The elements of \<open>m\<close> consecutive refills from state \<open>s\<close> on, and what \<open>m\<close> completed
  iterations of a receive loop do from \<open>s\<close> to \<open>s'\<close>: \<open>m\<close> refills, each element counted, and
  each adding one row to \<^verbatim>\<open>output.csv\<close> if the loop is the logging one.
\<close>

definition rx_total :: "hw \<Rightarrow> nat \<Rightarrow> st \<Rightarrow> nat" where
  "rx_total h m s = (\<Sum>j<m. rx_elems h (nrefill s + Suc j) s)"

definition rx_steps :: "hw \<Rightarrow> bool \<Rightarrow> nat \<Rightarrow> st \<Rightarrow> st \<Rightarrow> bool" where
  "rx_steps h logging m s s' =
     (rxbuf s' = rxbuf s \<and> rx0_i s' = rx0_i s \<and> foutp s' = foutp s
      \<and> nrefill s' = nrefill s + m
      \<and> nrx s' = nrx s + of_nat (rx_total h m s)
      \<and> length (filter is_refill (trace s')) = length (filter is_refill (trace s)) + m
      \<and> length (filter is_file_row (trace s')) =
            length (filter is_file_row (trace s)) + (if logging then rx_total h m s else 0)
      \<and> length (filter (is_row (foutp s)) (trace s')) =
            length (filter (is_row (foutp s)) (trace s)) + (if logging then rx_total h m s else 0)
      \<and> filter is_report (trace s') = filter is_report (trace s))"

text \<open>The sample counter at the end of a run of the receive section.\<close>

definition nrx_after :: "unit res option \<Rightarrow> 64 word option" where
  "nrx_after r = map_option (\<lambda>r. nrx (final r)) r"

text \<open>The addresses of the 16-bit objects a trace reads or writes, in order.\<close>

fun access_addr :: "event \<Rightarrow> addr list" where
  "access_addr (Store16 a v) = [a]"
| "access_addr (Load16 a) = [a]"
| "access_addr _ = []"

definition accessed :: "event list \<Rightarrow> addr list" where
  "accessed tr = concat (map access_addr tr)"




text \<open>The calls that create a buffer, and a library that cannot create one.\<close>

fun is_create :: "event \<Rightarrow> bool" where
  "is_create (Iio_device_create_buffer d n c) = True"
| "is_create _ = False"

definition hw_no_buffer :: hw where
  "hw_no_buffer = hw_ok\<lparr>iio_device_create_buffer := (\<lambda>dev n cyclic. 0)\<rparr>"

text \<open>A memory in which every sample is the most negative one, \<^verbatim>\<open>0x8000\<close>.\<close>

definition mem_min :: "addr \<Rightarrow> 16 word" where
  "mem_min = (\<lambda>a. - 32768)"

section \<open>Properties\<close>

subsection \<open>The shutdown sequencer\<close>

lemma emit_guarded: "(if p \<noteq> 0 then emit e s else s) = s\<lparr>trace := trace s @ guarded p e\<rparr>"
  by (simp add: emit_def guarded_def)

lemma shutdown_eq: "shutdown s = Halt (s\<lparr>trace := trace s @ shutdown_events s\<rparr>)"
  unfolding shutdown_def emit_guarded
  by (simp add: Let_def emit_def shutdown_events_def split del: if_split)

lemma releases_append: "releases (xs @ ys) = releases xs @ releases ys"
  by (simp add: releases_def)

lemma releases_guarded:
  "releases (guarded p (Iio_buffer_destroy p)) = filter (\<lambda>e. released e \<noteq> Some 0) [Iio_buffer_destroy p]"
  "releases (guarded p (Iio_channel_disable p)) = filter (\<lambda>e. released e \<noteq> Some 0) [Iio_channel_disable p]"
  "releases (guarded p (Iio_context_destroy p)) = filter (\<lambda>e. released e \<noteq> Some 0) [Iio_context_destroy p]"
  by (simp_all add: releases_def guarded_def)

lemma filter7:
  "filter P [a, b, c, d, e, f, g] =
     filter P [a] @ filter P [b] @ filter P [c] @ filter P [d] @ filter P [e] @ filter P [f] @ filter P [g]"
proof -
  have "[a, b, c, d, e, f, g] = [a] @ [b] @ [c] @ [d] @ [e] @ [f] @ [g]"
    by simp
  then show ?thesis
    by (simp only: filter_append)
qed

lemma releases_shutdown_events:
  "releases (shutdown_events s) = filter (\<lambda>e. released e \<noteq> Some 0) (slots s)"
proof -
  have p: "\<And>f a. releases [Printf f a] = []" "releases [Exit 0] = []"
    by (simp_all add: releases_def)
  show ?thesis
    unfolding shutdown_events_def slots_def releases_append releases_guarded p filter7
    by (simp split del: if_split)
qed

lemma distinct_released:
  assumes "distinct (filter (\<lambda>b. b \<noteq> 0) [b1, b2])"
    and "distinct (filter (\<lambda>c. c \<noteq> 0) [c1, c2, c3, c4])"
  shows "distinct (filter (\<lambda>e. released e \<noteq> Some 0)
           [Iio_buffer_destroy b1, Iio_buffer_destroy b2, Iio_channel_disable c1,
            Iio_channel_disable c2, Iio_channel_disable c3, Iio_channel_disable c4,
            Iio_context_destroy x])"
proof -
  let ?P = "\<lambda>e. released e \<noteq> Some 0"
  have b: "filter ?P (map Iio_buffer_destroy [b1, b2])
             = map Iio_buffer_destroy (filter (\<lambda>b. b \<noteq> 0) [b1, b2])"
    unfolding filter_map by (simp add: comp_def)
  have c: "filter ?P (map Iio_channel_disable [c1, c2, c3, c4])
             = map Iio_channel_disable (filter (\<lambda>c. c \<noteq> 0) [c1, c2, c3, c4])"
    unfolding filter_map by (simp add: comp_def)
  have kinds: "[Iio_buffer_destroy b1, Iio_buffer_destroy b2, Iio_channel_disable c1,
            Iio_channel_disable c2, Iio_channel_disable c3, Iio_channel_disable c4,
            Iio_context_destroy x]
          = map Iio_buffer_destroy [b1, b2] @ map Iio_channel_disable [c1, c2, c3, c4]
              @ [Iio_context_destroy x]"
    by simp
  have db: "distinct (map Iio_buffer_destroy (filter (\<lambda>b. b \<noteq> 0) [b1, b2]))"
    using assms(1) by (simp only: distinct_map) (simp add: inj_on_def)
  have dc: "distinct (map Iio_channel_disable (filter (\<lambda>c. c \<noteq> 0) [c1, c2, c3, c4]))"
    using assms(2) by (simp only: distinct_map) (simp add: inj_on_def)
  show ?thesis
    unfolding kinds filter_append b c
    using db dc by (auto simp del: filter.simps)
qed

text \<open>
  C4.  From any state, whichever of the seven handles are set, \<^verbatim>\<open>shutdown\<close> ends the
  process with \<^verbatim>\<open>exit(0)\<close> and changes nothing but the trace.  What it releases is
  the list receive buffer, transmit buffer, the four channels, context, in that order,
  without the entries whose handle is \<^verbatim>\<open>NULL\<close>; it never reaches undefined behaviour or
  an abort; and when the handles held are different resources, nothing is released twice.
\<close>

theorem C4_shutdown_sequencer:
  "\<exists>s'. (shutdown s :: unit res) = Halt s'
     \<and> s'\<lparr>trace := trace s\<rparr> = s
     \<and> take (length (trace s)) (trace s') = trace s
     \<and> releases (new_events s s') = filter (\<lambda>e. released e \<noteq> Some 0) (slots s)
     \<and> Undefined \<notin> set (new_events s s') \<and> Abort \<notin> set (new_events s s')
     \<and> last (trace s') = Exit 0
     \<and> (distinct (filter (\<lambda>b. b \<noteq> 0) [rxbuf s, txbuf s])
          \<and> distinct (filter (\<lambda>c. c \<noteq> 0) [rx0_i s, rx0_q s, tx0_i s, tx0_q s])
        \<longrightarrow> distinct (releases (new_events s s')))"
proof -
  let ?s' = "s\<lparr>trace := trace s @ shutdown_events s\<rparr>"
  have n: "new_events s ?s' = shutdown_events s"
    by (simp add: new_events_def)
  have u: "Undefined \<notin> set (shutdown_events s)" "Abort \<notin> set (shutdown_events s)"
    by (simp_all add: shutdown_events_def guarded_def)
  have l: "last (trace ?s') = Exit 0"
    by (simp add: shutdown_events_def)
  have d: "distinct (filter (\<lambda>b. b \<noteq> 0) [rxbuf s, txbuf s])
          \<and> distinct (filter (\<lambda>c. c \<noteq> 0) [rx0_i s, rx0_q s, tx0_i s, tx0_q s])
        \<longrightarrow> distinct (releases (shutdown_events s))"
    unfolding releases_shutdown_events slots_def using distinct_released by blast
  show ?thesis
    unfolding shutdown_eq using n u l d releases_shutdown_events by simp
qed

theorem C4_shutdown_sequencer_witness:
  "distinct (filter (\<lambda>b. b \<noteq> 0) [rxbuf s_partial, txbuf s_partial])
   \<and> distinct (filter (\<lambda>c. c \<noteq> 0)
        [rx0_i s_partial, rx0_q s_partial, tx0_i s_partial, tx0_q s_partial])
   \<and> (\<exists>s'. (shutdown s_partial :: unit res) = Halt s'
        \<and> releases (new_events s_partial s')
            = [Iio_buffer_destroy 4, Iio_channel_disable 2, Iio_channel_disable 3,
               Iio_context_destroy 1]
        \<and> distinct (releases (new_events s_partial s')))"
  using C4_shutdown_sequencer [of s_partial]
  by (auto simp add: s_partial_def init_def slots_def)

subsection \<open>The attribute wrappers\<close>



lemma shutdown_events_upd [simp]: "shutdown_events (s\<lparr>trace := t\<rparr>) = shutdown_events s"
  by (simp add: shutdown_events_def)






lemma wr_ch_lli_eq:
  "wr_ch_lli h chn what val s =
     (if sint (iio_channel_attr_write_longlong h chn what val) < 0
      then Halt (s\<lparr>trace := trace s @ [Iio_channel_attr_write_longlong chn what val,
                  Eprintf ERR_FMT [AInt (sint (iio_channel_attr_write_longlong h chn what val)),
                                   AStr what]]
                  @ shutdown_events s\<rparr>)
      else Cont () (s\<lparr>trace := trace s @ [Iio_channel_attr_write_longlong chn what val]\<rparr>))"
  by (simp add: wr_ch_lli_def errchk_def shutdown_eq emit_def shutdown_events_def)

lemma wr_ch_str_eq:
  "wr_ch_str h chn what str s =
     (if sint (int_of_ssize_t (iio_channel_attr_write h chn what str)) < 0
      then Halt (s\<lparr>trace := trace s @ [Iio_channel_attr_write chn what str,
                  Eprintf ERR_FMT [AInt (sint (int_of_ssize_t (iio_channel_attr_write h chn what str))),
                                   AStr what]]
                  @ shutdown_events s\<rparr>)
      else Cont () (s\<lparr>trace := trace s @ [Iio_channel_attr_write chn what str]\<rparr>))"
  by (simp add: wr_ch_str_def errchk_def shutdown_eq emit_def shutdown_events_def)

lemma rd_ch_lli_eq:
  "rd_ch_lli h chn what s =
     (if sint (fst (iio_channel_attr_read_longlong h chn what)) < 0
      then Halt (s\<lparr>trace := trace s @ [Iio_channel_attr_read_longlong chn what,
                  Eprintf ERR_FMT [AInt (sint (fst (iio_channel_attr_read_longlong h chn what))),
                                   AStr what]]
                  @ shutdown_events s\<rparr>)
      else Cont (snd (iio_channel_attr_read_longlong h chn what))
             (s\<lparr>trace := trace s @ [Iio_channel_attr_read_longlong chn what]\<rparr>))"
  by (simp add: rd_ch_lli_def errchk_def shutdown_eq emit_def shutdown_events_def split_beta bnd_def)

lemma rd_ch_str_eq:
  "rd_ch_str h chn what len s =
     (if sint (int_of_ssize_t (fst (iio_channel_attr_read h chn what len))) < 0
      then Halt (s\<lparr>trace := trace s @ [Iio_channel_attr_read chn what len,
                  Eprintf ERR_FMT [AInt (sint (int_of_ssize_t (fst (iio_channel_attr_read h chn what len)))),
                                   AStr what]]
                  @ shutdown_events s\<rparr>)
      else Cont (snd (iio_channel_attr_read h chn what len))
             (s\<lparr>trace := trace s @ [Iio_channel_attr_read chn what len]\<rparr>))"
  by (simp add: rd_ch_str_def errchk_def shutdown_eq emit_def shutdown_events_def split_beta bnd_def)


subsection \<open>The gain block of the configuration\<close>

lemma shutdown_events_no_attr_write [simp]:
  "Iio_channel_attr_write_longlong c w v \<notin> set (shutdown_events s)"
  "Iio_channel_attr_write c w x \<notin> set (shutdown_events s)"
  by (simp_all add: shutdown_events_def guarded_def)

text \<open>
  C7, as the code has it.  For the receive direction the gain block writes
  \<^verbatim>\<open>gain_control_mode = "manual"\<close>, reads the mode back, writes \<^verbatim>\<open>hardwaregain\<close>, reads the
  gain back, in this order.  Each of the four results reaches \<^verbatim>\<open>errchk\<close> as an \<^verbatim>\<open>int\<close>.  When
  the four are non-negative the block goes on and the state differs only in the trace,
  whose last entry is the log line that carries the two values read: the values have no
  other use.  The first of the four that is negative ends the run through \<^verbatim>\<open>shutdown\<close>,
  after the error line: so does a failing read-back, that of the mode before the gain is
  written.  Whatever the outcome, a write of the gain comes after the write of the mode.
\<close>

theorem C7_rx_gain_configuration:
  "(let wm = Iio_channel_attr_write chn ''gain_control_mode'' ''manual'';
        rm = Iio_channel_attr_read chn ''gain_control_mode'' 1024;
        wg = Iio_channel_attr_write_longlong chn ''hardwaregain'' (gain cfg);
        rg = Iio_channel_attr_read_longlong chn ''hardwaregain'';
        wm_ret = sint (int_of_ssize_t (iio_channel_attr_write h chn ''gain_control_mode'' ''manual''));
        rm_ret = sint (int_of_ssize_t (fst (iio_channel_attr_read h chn ''gain_control_mode'' 1024)));
        mode = snd (iio_channel_attr_read h chn ''gain_control_mode'' 1024);
        wg_ret = sint (iio_channel_attr_write_longlong h chn ''hardwaregain'' (gain cfg));
        rg_ret = sint (fst (iio_channel_attr_read_longlong h chn ''hardwaregain''));
        g = snd (iio_channel_attr_read_longlong h chn ''hardwaregain'');
        r = cfg_gain h cfg RX chn s
    in (0 \<le> wm_ret \<and> 0 \<le> rm_ret \<and> 0 \<le> wg_ret \<and> 0 \<le> rg_ret \<longrightarrow>
          r = Cont () (s\<lparr>trace := trace s @
                [wm, rm, wg, rg, Printf ''* RX gain is %lld, mode is %s\<newline>'' [AInt g, AStr mode]]\<rparr>))
     \<and> (wm_ret < 0 \<longrightarrow>
          r = shutdown (s\<lparr>trace := trace s @
                [wm, Eprintf ERR_FMT [AInt wm_ret, AStr ''gain_control_mode'']]\<rparr>))
     \<and> (0 \<le> wm_ret \<and> rm_ret < 0 \<longrightarrow>
          r = shutdown (s\<lparr>trace := trace s @
                [wm, rm, Eprintf ERR_FMT [AInt rm_ret, AStr ''gain_control_mode'']]\<rparr>)
          \<and> halted r \<and> wg \<notin> set (new_events s (final r)))
     \<and> (0 \<le> wm_ret \<and> 0 \<le> rm_ret \<and> wg_ret < 0 \<longrightarrow>
          r = shutdown (s\<lparr>trace := trace s @
                [wm, rm, wg, Eprintf ERR_FMT [AInt wg_ret, AStr ''hardwaregain'']]\<rparr>))
     \<and> (0 \<le> wm_ret \<and> 0 \<le> rm_ret \<and> 0 \<le> wg_ret \<and> rg_ret < 0 \<longrightarrow>
          r = shutdown (s\<lparr>trace := trace s @
                [wm, rm, wg, rg, Eprintf ERR_FMT [AInt rg_ret, AStr ''hardwaregain'']]\<rparr>)
          \<and> halted r)
     \<and> (wg \<in> set (new_events s (final r)) \<longrightarrow>
          wm \<in> set (takeWhile (\<lambda>e. e \<noteq> wg) (new_events s (final r)))))"
  by (simp add: cfg_gain_def wr_ch_lli_eq wr_ch_str_eq rd_ch_lli_eq rd_ch_str_eq bnd_def
      Let_def split_beta halted_def final_def new_events_def emit_def shutdown_eq)

theorem C7_rx_gain_configuration_witness:
  "0 \<le> sint (int_of_ssize_t (iio_channel_attr_write hw_ok 21 ''gain_control_mode'' ''manual''))
   \<and> 0 \<le> sint (int_of_ssize_t (fst (iio_channel_attr_read hw_ok 21 ''gain_control_mode'' 1024)))
   \<and> 0 \<le> sint (iio_channel_attr_write_longlong hw_ok 21 ''hardwaregain'' (gain rxcfg))
   \<and> 0 \<le> sint (fst (iio_channel_attr_read_longlong hw_ok 21 ''hardwaregain''))
   \<and> cfg_gain hw_ok rxcfg RX 21 init = Cont () (init\<lparr>trace :=
        [Iio_channel_attr_write 21 ''gain_control_mode'' ''manual'',
         Iio_channel_attr_read 21 ''gain_control_mode'' 1024,
         Iio_channel_attr_write_longlong 21 ''hardwaregain'' 50,
         Iio_channel_attr_read_longlong 21 ''hardwaregain'',
         Printf ''* RX gain is %lld, mode is %s\<newline>'' [AInt 50, AStr ''manual'']]\<rparr>)
   \<and> Iio_channel_attr_write 21 ''gain_control_mode'' ''manual''
        \<in> set (takeWhile (\<lambda>e. e \<noteq> Iio_channel_attr_write_longlong 21 ''hardwaregain'' 50)
             (new_events init (final (cfg_gain hw_ok rxcfg RX 21 init))))
   \<and> sint (int_of_ssize_t (iio_channel_attr_write hw_attr_fail 21 ''gain_control_mode'' ''manual'')) < 0
   \<and> cfg_gain hw_attr_fail rxcfg RX 21 init = shutdown (init\<lparr>trace :=
        [Iio_channel_attr_write 21 ''gain_control_mode'' ''manual'',
         Eprintf ERR_FMT [AInt (- 22), AStr ''gain_control_mode'']]\<rparr>)
   \<and> sint (int_of_ssize_t (fst (iio_channel_attr_read hw_rd_fail 21 ''gain_control_mode'' 1024))) < 0
   \<and> cfg_gain hw_rd_fail rxcfg RX 21 init = shutdown (init\<lparr>trace :=
        [Iio_channel_attr_write 21 ''gain_control_mode'' ''manual'',
         Iio_channel_attr_read 21 ''gain_control_mode'' 1024,
         Eprintf ERR_FMT [AInt (- 22), AStr ''gain_control_mode'']]\<rparr>)
   \<and> sint (iio_channel_attr_write_longlong hw_wrll_fail 21 ''hardwaregain'' (gain rxcfg)) < 0
   \<and> cfg_gain hw_wrll_fail rxcfg RX 21 init = shutdown (init\<lparr>trace :=
        [Iio_channel_attr_write 21 ''gain_control_mode'' ''manual'',
         Iio_channel_attr_read 21 ''gain_control_mode'' 1024,
         Iio_channel_attr_write_longlong 21 ''hardwaregain'' 50,
         Eprintf ERR_FMT [AInt (- 22), AStr ''hardwaregain'']]\<rparr>)
   \<and> sint (fst (iio_channel_attr_read_longlong hw_rdll_fail 21 ''hardwaregain'')) < 0
   \<and> cfg_gain hw_rdll_fail rxcfg RX 21 init = shutdown (init\<lparr>trace :=
        [Iio_channel_attr_write 21 ''gain_control_mode'' ''manual'',
         Iio_channel_attr_read 21 ''gain_control_mode'' 1024,
         Iio_channel_attr_write_longlong 21 ''hardwaregain'' 50,
         Iio_channel_attr_read_longlong 21 ''hardwaregain'',
         Eprintf ERR_FMT [AInt (- 22), AStr ''hardwaregain'']]\<rparr>)"
proof -
  have g: "gain rxcfg = 50" "trace init = []"
    by (simp_all add: rxcfg_def init_def)
  have ok: "sint (int_of_ssize_t (iio_channel_attr_write hw_ok 21 ''gain_control_mode'' ''manual'')) = 7"
    "sint (int_of_ssize_t (fst (iio_channel_attr_read hw_ok 21 ''gain_control_mode'' 1024))) = 7"
    "snd (iio_channel_attr_read hw_ok 21 ''gain_control_mode'' 1024) = ''manual''"
    "sint (iio_channel_attr_write_longlong hw_ok 21 ''hardwaregain'' 50) = 0"
    "sint (fst (iio_channel_attr_read_longlong hw_ok 21 ''hardwaregain'')) = 0"
    "snd (iio_channel_attr_read_longlong hw_ok 21 ''hardwaregain'') = 50"
    by (simp_all add: hw_ok_def int_of_ssize_t_def)
  have af: "sint (int_of_ssize_t (iio_channel_attr_write hw_attr_fail 21 ''gain_control_mode'' ''manual'')) = - 22"
    by (simp add: hw_attr_fail_def int_of_ssize_t_def)
  have rf: "sint (int_of_ssize_t (iio_channel_attr_write hw_rd_fail 21 ''gain_control_mode'' ''manual'')) = 7"
    "sint (int_of_ssize_t (fst (iio_channel_attr_read hw_rd_fail 21 ''gain_control_mode'' 1024))) = - 22"
    by (simp_all add: hw_rd_fail_def hw_ok_def int_of_ssize_t_def)
  have wf: "sint (int_of_ssize_t (iio_channel_attr_write hw_wrll_fail 21 ''gain_control_mode'' ''manual'')) = 7"
    "sint (int_of_ssize_t (fst (iio_channel_attr_read hw_wrll_fail 21 ''gain_control_mode'' 1024))) = 7"
    "sint (iio_channel_attr_write_longlong hw_wrll_fail 21 ''hardwaregain'' 50) = - 22"
    by (simp_all add: hw_wrll_fail_def hw_ok_def int_of_ssize_t_def)
  have lf: "sint (int_of_ssize_t (iio_channel_attr_write hw_rdll_fail 21 ''gain_control_mode'' ''manual'')) = 7"
    "sint (int_of_ssize_t (fst (iio_channel_attr_read hw_rdll_fail 21 ''gain_control_mode'' 1024))) = 7"
    "sint (iio_channel_attr_write_longlong hw_rdll_fail 21 ''hardwaregain'' 50) = 0"
    "sint (fst (iio_channel_attr_read_longlong hw_rdll_fail 21 ''hardwaregain'')) = - 22"
    by (simp_all add: hw_rdll_fail_def hw_ok_def int_of_ssize_t_def)
  note c1 = C7_rx_gain_configuration [of 21 rxcfg hw_ok init, unfolded Let_def g ok]
  note c2 = C7_rx_gain_configuration [of 21 rxcfg hw_attr_fail init, unfolded Let_def g af]
  note c3 = C7_rx_gain_configuration [of 21 rxcfg hw_rd_fail init, unfolded Let_def g rf]
  note c4 = C7_rx_gain_configuration [of 21 rxcfg hw_wrll_fail init, unfolded Let_def g wf]
  note c5 = C7_rx_gain_configuration [of 21 rxcfg hw_rdll_fail init, unfolded Let_def g lf]
  from c1 have r1: "cfg_gain hw_ok rxcfg RX 21 init = Cont () (init\<lparr>trace :=
        [Iio_channel_attr_write 21 ''gain_control_mode'' ''manual'',
         Iio_channel_attr_read 21 ''gain_control_mode'' 1024,
         Iio_channel_attr_write_longlong 21 ''hardwaregain'' 50,
         Iio_channel_attr_read_longlong 21 ''hardwaregain'',
         Printf ''* RX gain is %lld, mode is %s\<newline>'' [AInt 50, AStr ''manual'']]\<rparr>)"
    by simp
  have ord: "Iio_channel_attr_write 21 ''gain_control_mode'' ''manual''
        \<in> set (takeWhile (\<lambda>e. e \<noteq> Iio_channel_attr_write_longlong 21 ''hardwaregain'' 50)
             (new_events init (final (cfg_gain hw_ok rxcfg RX 21 init))))"
    unfolding r1 by (simp add: final_def new_events_def init_def)
  from c2 have r2: "cfg_gain hw_attr_fail rxcfg RX 21 init = shutdown (init\<lparr>trace :=
        [Iio_channel_attr_write 21 ''gain_control_mode'' ''manual'',
         Eprintf ERR_FMT [AInt (- 22), AStr ''gain_control_mode'']]\<rparr>)"
    by simp
  from c3 have r3: "cfg_gain hw_rd_fail rxcfg RX 21 init = shutdown (init\<lparr>trace :=
        [Iio_channel_attr_write 21 ''gain_control_mode'' ''manual'',
         Iio_channel_attr_read 21 ''gain_control_mode'' 1024,
         Eprintf ERR_FMT [AInt (- 22), AStr ''gain_control_mode'']]\<rparr>)"
    by simp
  from c4 have r4: "cfg_gain hw_wrll_fail rxcfg RX 21 init = shutdown (init\<lparr>trace :=
        [Iio_channel_attr_write 21 ''gain_control_mode'' ''manual'',
         Iio_channel_attr_read 21 ''gain_control_mode'' 1024,
         Iio_channel_attr_write_longlong 21 ''hardwaregain'' 50,
         Eprintf ERR_FMT [AInt (- 22), AStr ''hardwaregain'']]\<rparr>)"
    by simp
  from c5 have r5: "cfg_gain hw_rdll_fail rxcfg RX 21 init = shutdown (init\<lparr>trace :=
        [Iio_channel_attr_write 21 ''gain_control_mode'' ''manual'',
         Iio_channel_attr_read 21 ''gain_control_mode'' 1024,
         Iio_channel_attr_write_longlong 21 ''hardwaregain'' 50,
         Iio_channel_attr_read_longlong 21 ''hardwaregain'',
         Eprintf ERR_FMT [AInt (- 22), AStr ''hardwaregain'']]\<rparr>)"
    by simp
  from r1 ord r2 r3 r4 r5 show ?thesis
    unfolding g ok af rf wf lf by simp
qed

text \<open>
  The read-back is not without effect on control flow: with a library that differs only
  in what the read of \<^verbatim>\<open>gain_control_mode\<close> returns, the block ends the process, and
  the gain is never written.
\<close>

theorem C7_readback_counterexample:
  "\<not> halted (cfg_gain hw_ok rxcfg RX 21 init)
   \<and> halted (cfg_gain hw_rd_fail rxcfg RX 21 init)
   \<and> Iio_channel_attr_write_longlong 21 ''hardwaregain'' 50
        \<notin> set (trace (final (cfg_gain hw_rd_fail rxcfg RX 21 init)))"
proof -
  have v: "sint (int_of_ssize_t 7) = 7" "sint (int_of_ssize_t (- 22)) = - 22"
    by (simp_all add: int_of_ssize_t_def)
  have a: "cfg_gain hw_ok rxcfg RX 21 init = Cont () (init\<lparr>trace :=
        [Iio_channel_attr_write 21 ''gain_control_mode'' ''manual'',
         Iio_channel_attr_read 21 ''gain_control_mode'' 1024,
         Iio_channel_attr_write_longlong 21 ''hardwaregain'' 50,
         Iio_channel_attr_read_longlong 21 ''hardwaregain'',
         Printf ''* RX gain is %lld, mode is %s\<newline>'' [AInt 50, AStr ''manual'']]\<rparr>)"
    by (simp add: cfg_gain_def wr_ch_lli_eq wr_ch_str_eq rd_ch_lli_eq rd_ch_str_eq bnd_def
        hw_ok_def rxcfg_def init_def emit_def v)
  have b: "cfg_gain hw_rd_fail rxcfg RX 21 init = Halt (init\<lparr>trace :=
        [Iio_channel_attr_write 21 ''gain_control_mode'' ''manual'',
         Iio_channel_attr_read 21 ''gain_control_mode'' 1024,
         Eprintf ERR_FMT [AInt (- 22), AStr ''gain_control_mode'']] @ shutdown_events init\<rparr>)"
    by (simp add: cfg_gain_def wr_ch_lli_eq wr_ch_str_eq rd_ch_lli_eq rd_ch_str_eq bnd_def
        hw_rd_fail_def hw_ok_def rxcfg_def init_def emit_def shutdown_events_def guarded_def v)
  show ?thesis
    unfolding a b by (simp add: halted_def final_def)
qed

subsection \<open>Walking a buffer\<close>

lemma n_elems_step:
  assumes "0 < inc" "p < e"
  shows "n_elems p e inc = Suc (n_elems (p + inc) e inc)"
proof (cases "p + inc < e")
  case True
  have "(e - p + inc - 1) div inc = (e - (p + inc) + inc - 1) div inc + 1"
    using assms(1) div_add_self2 [of inc "e - (p + inc) + inc - 1"] by (simp add: algebra_simps)
  moreover have "0 \<le> (e - (p + inc) + inc - 1) div inc"
    using True assms(1) by (simp add: pos_imp_zdiv_nonneg_iff)
  ultimately show ?thesis
    using True assms by (simp add: n_elems_def nat_add_distrib)
next
  case False
  then have b: "0 \<le> e - p - 1" "e - p - 1 < inc"
    using assms by simp_all
  have "(e - p + inc - 1) div inc = (e - p - 1) div inc + 1"
    using assms(1) div_add_self2 [of inc "e - p - 1"] by (simp add: algebra_simps)
  also have "(e - p - 1) div inc = 0"
    using b by (rule div_pos_pos_trivial)
  finally have "(e - p + inc - 1) div inc = 1"
    by simp
  then show ?thesis
    using False assms by (simp add: n_elems_def)
qed

lemma for_each_elem_terminates:
  "0 < inc \<Longrightarrow> for_each_elem body p e inc s = Some (iter body (n_elems p e inc) p inc s)"
proof (induction "nat (e - p)" arbitrary: p s rule: less_induct)
  case less
  show ?case
  proof (cases "p < e")
    case False
    then show ?thesis
      by (subst for_each_elem.simps) (simp add: n_elems_def)
  next
    case True
    have n: "n_elems p e inc = Suc (n_elems (p + inc) e inc)"
      using n_elems_step [OF less.prems True] .
    have m: "nat (e - (p + inc)) < nat (e - p)"
      using True less.prems by simp
    show ?thesis
      using True less.hyps [OF m less.prems]
      by (subst for_each_elem.simps) (simp add: n split: res.split)
  qed
qed

lemma for_each_elem_empty: "e \<le> p \<Longrightarrow> for_each_elem body p e inc s = Some (Cont () s)"
  by (subst for_each_elem.simps) simp

subsection \<open>Signals do not interfere\<close>

lemma prog_simps [simp]:
  "prog [] = []"
  "prog (xs @ ys) = prog xs @ prog ys"
  "prog (prog xs) = prog xs"
  "prog (sig_events sigs n) = []"
  by (simp_all add: prog_def sig_events_def split: option.split)

lemma prog_Cons: "prog (e # es) = (if is_sig_msg e then prog es else e # prog es)"
  by (simp add: prog_def)

lemma deliver_eq:
  "deliver sigs s = s\<lparr>stop := stop s \<or> sigs (tick s) \<noteq> None, tick := Suc (tick s),
                      trace := trace s @ sig_events sigs (tick s)\<rparr>"
  by (cases "sigs (tick s)") (simp_all add: deliver_def handle_sig_def emit_def sig_events_def Let_def)

lemma erase_fields [simp]:
  "ctx (erase s) = ctx s" "rx0_i (erase s) = rx0_i s" "rx0_q (erase s) = rx0_q s"
  "tx0_i (erase s) = tx0_i s" "tx0_q (erase s) = tx0_q s" "rxbuf (erase s) = rxbuf s"
  "txbuf (erase s) = txbuf s" "nrx (erase s) = nrx s" "i_time (erase s) = i_time s"
  "foutp (erase s) = foutp s" "finp (erase s) = finp s" "mem (erase s) = mem s"
  "nrefill (erase s) = nrefill s" "trace (erase s) = prog (trace s)"
  "stop (erase s) = False" "tick (erase s) = 0"
  by (simp_all add: erase_def)

lemma erase_idem [simp]: "erase (erase s) = erase s"
  by (simp add: erase_def)

lemma erase_deliver [simp]: "erase (deliver sigs s) = erase s"
  by (simp add: deliver_eq erase_def)

lemma erase_emit: "\<not> is_sig_msg e \<Longrightarrow> erase (emit e s) = emit e (erase s)"
  by (simp add: erase_def emit_def prog_Cons)

lemma erase_updates [simp]:
  "erase (s\<lparr>nrx := a\<rparr>) = (erase s)\<lparr>nrx := a\<rparr>"
  "erase (s\<lparr>i_time := b\<rparr>) = (erase s)\<lparr>i_time := b\<rparr>"
  "erase (s\<lparr>mem := c\<rparr>) = (erase s)\<lparr>mem := c\<rparr>"
  "erase (s\<lparr>nrefill := d\<rparr>) = (erase s)\<lparr>nrefill := d\<rparr>"
  by (simp_all add: erase_def)

lemma erase_eqD:
  assumes "erase s = erase t"
  shows "ctx s = ctx t" "rx0_i s = rx0_i t" "rx0_q s = rx0_q t" "tx0_i s = tx0_i t"
    "tx0_q s = tx0_q t" "rxbuf s = rxbuf t" "txbuf s = txbuf t" "nrx s = nrx t"
    "i_time s = i_time t" "foutp s = foutp t" "finp s = finp t" "mem s = mem t"
    "nrefill s = nrefill t" "prog (trace s) = prog (trace t)"
  using arg_cong [OF assms, of ctx] arg_cong [OF assms, of rx0_i] arg_cong [OF assms, of rx0_q]
    arg_cong [OF assms, of tx0_i] arg_cong [OF assms, of tx0_q] arg_cong [OF assms, of rxbuf]
    arg_cong [OF assms, of txbuf] arg_cong [OF assms, of nrx] arg_cong [OF assms, of i_time]
    arg_cong [OF assms, of foutp] arg_cong [OF assms, of finp] arg_cong [OF assms, of mem]
    arg_cong [OF assms, of nrefill] arg_cong [OF assms, of trace]
  by simp_all

lemma erase_shutdown: "erase_res (shutdown s) = shutdown (erase s)"
  by (simp add: shutdown_eq erase_res_def erase_def shutdown_events_def guarded_def prog_Cons SIG_FMT_def)

lemma deliver_fields [simp]:
  "ctx (deliver sigs s) = ctx s" "rx0_i (deliver sigs s) = rx0_i s" "rx0_q (deliver sigs s) = rx0_q s"
  "tx0_i (deliver sigs s) = tx0_i s" "tx0_q (deliver sigs s) = tx0_q s" "rxbuf (deliver sigs s) = rxbuf s"
  "txbuf (deliver sigs s) = txbuf s" "nrx (deliver sigs s) = nrx s" "i_time (deliver sigs s) = i_time s"
  "foutp (deliver sigs s) = foutp s" "finp (deliver sigs s) = finp s" "mem (deliver sigs s) = mem s"
  "nrefill (deliver sigs s) = nrefill s"
  by (simp_all add: deliver_eq)

lemma emit_fields [simp]:
  "ctx (emit e s) = ctx s" "rx0_i (emit e s) = rx0_i s" "rx0_q (emit e s) = rx0_q s"
  "tx0_i (emit e s) = tx0_i s" "tx0_q (emit e s) = tx0_q s" "rxbuf (emit e s) = rxbuf s"
  "txbuf (emit e s) = txbuf s" "nrx (emit e s) = nrx s" "i_time (emit e s) = i_time s"
  "foutp (emit e s) = foutp s" "finp (emit e s) = finp s" "mem (emit e s) = mem s"
  "nrefill (emit e s) = nrefill s" "trace (emit e s) = trace s @ [e]"
  "stop (emit e s) = stop s" "tick (emit e s) = tick s"
  by (simp_all add: emit_def)

lemma emit_updates [simp]:
  "emit e (s\<lparr>nrx := a\<rparr>) = (emit e s)\<lparr>nrx := a\<rparr>"
  "emit e (s\<lparr>i_time := b\<rparr>) = (emit e s)\<lparr>i_time := b\<rparr>"
  "emit e (s\<lparr>mem := c\<rparr>) = (emit e s)\<lparr>mem := c\<rparr>"
  "emit e (s\<lparr>nrefill := d\<rparr>) = (emit e s)\<lparr>nrefill := d\<rparr>"
  by (simp_all add: emit_def)

lemma erase_res_simps [simp]:
  "erase_res (Cont x s) = Cont x (erase s)"
  "erase_res (Halt s) = Halt (erase s)"
  by (simp_all add: erase_res_def)

lemma erase_tx_body:
  "erase_res (tx_body h sigs p s) = erase_res (tx_body h (\<lambda>_. None) p (erase s))"
  by (simp add: tx_body_def Let_def store16_def load16_def erase_emit split: option.split)

lemma erase_warmup_body:
  "erase_res (warmup_body sigs p s) = erase_res (warmup_body (\<lambda>_. None) p (erase s))"
  by (simp add: warmup_body_def Let_def)

lemma erase_capture_body:
  "erase_res (capture_body sigs p s) = erase_res (capture_body (\<lambda>_. None) p (erase s))"
  by (simp add: capture_body_def Let_def load16_def erase_emit)

lemma erase_refill:
  "erase_res (refill h s) = refill h (erase s)"
  by (simp add: refill_def Let_def erase_emit erase_shutdown SIG_FMT_def)

lemma for_each_elem_sim:
  assumes run: "for_each_elem body1 p e inc s = Some r"
    and cong: "\<And>p s t. erase s = erase t \<Longrightarrow> erase_res (body1 p s) = erase_res (body2 p t)"
    and st: "erase s = erase t"
  shows "\<exists>r'. for_each_elem body2 p e inc t = Some r' \<and> erase_res r = erase_res r'"
  using run cong st
proof (induction arbitrary: t rule: for_each_elem.raw_induct [rotated 1, consumes 1])
  case (1 f b p e inc s r)
  show ?case
  proof (cases "p < e")
    case False
    with 1(2) have "r = Cont () s"
      by simp
    with False 1(4) show ?thesis
      by (subst for_each_elem.simps) simp
  next
    case True
    note c = 1(3) [OF 1(4), of p]
    show ?thesis
    proof (cases "b p s")
      case (Halt s1)
      with c obtain t1 where t1: "body2 p t = Halt t1" "erase s1 = erase t1"
        by (cases "body2 p t") simp_all
      from 1(2) True Halt have "r = Halt s1"
        by simp
      with t1 True show ?thesis
        by (subst for_each_elem.simps) simp
    next
      case (Cont u s1)
      with c obtain t1 where t1: "body2 p t = Cont () t1" "erase s1 = erase t1"
        by (cases "body2 p t") simp_all
      from 1(2) True Cont have "f b (p + inc) e inc s1 = Some r"
        by simp
      from 1(1) [OF this 1(3) t1(2)]
      obtain r' where "for_each_elem body2 (p + inc) e inc t1 = Some r'"
        "erase_res r = erase_res r'"
        by blast
      with t1 True show ?thesis
        by (subst for_each_elem.simps) simp
    qed
  qed
qed

lemma for_each_elem_erase:
  assumes cong: "\<And>p s t. erase s = erase t \<Longrightarrow> erase_res (body1 p s) = erase_res (body2 p t)"
    and st: "erase s = erase t"
  shows "erase_opt (for_each_elem body1 p e inc s) = erase_opt (for_each_elem body2 p e inc t)"
proof (cases "for_each_elem body1 p e inc s")
  case (Some r)
  from for_each_elem_sim [of body1 _ _ _ _ _ body2, OF Some cong st]
  show ?thesis
    using Some by (auto simp add: erase_opt_def)
next
  case None
  have "for_each_elem body2 p e inc t = None"
  proof (rule ccontr)
    assume "for_each_elem body2 p e inc t \<noteq> None"
    then obtain r' where r': "for_each_elem body2 p e inc t = Some r'"
      by blast
    have "\<exists>r. for_each_elem body1 p e inc s = Some r \<and> erase_res r' = erase_res r"
      by (rule for_each_elem_sim [of body2 _ _ _ _ _ body1, OF r' _ st [symmetric]])
        (rule cong [symmetric], simp)
    with None show False
      by simp
  qed
  with None show ?thesis
    by (simp add: erase_opt_def)
qed

lemma erase_opt_simps [simp]:
  "erase_opt None = None"
  "erase_opt (Some r) = Some (erase_res r)"
  by (simp_all add: erase_opt_def)

lemma tx_body_cong:
  "erase s = erase t \<Longrightarrow> erase_res (tx_body h sigs p s) = erase_res (tx_body h sigs' p t)"
  using erase_tx_body [of h sigs p s] erase_tx_body [of h sigs' p t] by simp

lemma warmup_body_cong:
  "erase s = erase t \<Longrightarrow> erase_res (warmup_body sigs p s) = erase_res (warmup_body sigs' p t)"
  using erase_warmup_body [of sigs p s] erase_warmup_body [of sigs' p t] by simp

lemma capture_body_cong:
  "erase s = erase t \<Longrightarrow> erase_res (capture_body sigs p s) = erase_res (capture_body sigs' p t)"
  using erase_capture_body [of sigs p s] erase_capture_body [of sigs' p t] by simp

lemma obnd_cong:
  assumes "erase_opt r = erase_opt r'"
    and "\<And>x s t. erase s = erase t \<Longrightarrow> erase_opt (f x s) = erase_opt (f' x t)"
  shows "erase_opt (obnd r f) = erase_opt (obnd r' f')"
proof (cases r)
  case None
  with assms(1) show ?thesis
    by (cases r') (simp_all add: obnd_def)
next
  case (Some a)
  with assms(1) obtain a' where a': "r' = Some a'" "erase_res a = erase_res a'"
    by (cases r') simp_all
  show ?thesis
  proof (cases a)
    case (Halt s)
    with a' Some show ?thesis
      by (cases a') (simp_all add: obnd_def)
  next
    case (Cont x s)
    with a' obtain t where "a' = Cont x t" "erase s = erase t"
      by (cases a') simp_all
    with Cont Some a' assms(2) show ?thesis
      by (simp add: obnd_def)
  qed
qed

lemma rx_iteration_cong:
  assumes body: "\<And>p s t. erase s = erase t \<Longrightarrow> erase_res (body1 p s) = erase_res (body2 p t)"
    and st: "erase s = erase t"
  shows "erase_opt (rx_iteration h sigs body1 s) = erase_opt (rx_iteration h sigs' body2 t)"
  unfolding rx_iteration_def
proof (rule obnd_cong)
  show "erase_opt (Some (refill h (deliver sigs s))) = erase_opt (Some (refill h (deliver sigs' t)))"
    using st by (simp add: erase_refill)
next
  fix x :: unit and s t
  assume e: "erase s = erase t"
  show "erase_opt (let p_inc = iio_buffer_step h (nrefill s) (rxbuf s);
                       p_end = iio_buffer_end h (nrefill s) (rxbuf s)
                   in for_each_elem body1 (iio_buffer_first h (nrefill s) (rxbuf s) (rx0_i s)) p_end p_inc s)
      = erase_opt (let p_inc = iio_buffer_step h (nrefill t) (rxbuf t);
                       p_end = iio_buffer_end h (nrefill t) (rxbuf t)
                   in for_each_elem body2 (iio_buffer_first h (nrefill t) (rxbuf t) (rx0_i t)) p_end p_inc t)"
    using for_each_elem_erase [of body1 body2, OF body e] erase_eqD [OF e]
    by (simp add: Let_def)
qed

lemma rx_for_cong:
  assumes body: "\<And>p s t. erase s = erase t \<Longrightarrow> erase_res (body1 p s) = erase_res (body2 p t)"
    and st: "erase s = erase t"
  shows "erase_opt (rx_for h sigs body1 i n s) = erase_opt (rx_for h sigs' body2 i n t)"
  using st
proof (induction "nat (n - i)" arbitrary: i s t)
  case 0
  then show ?case
    by simp
next
  case (Suc k)
  then have lt: "i < n" and k: "k = nat (n - (i + 1))"
    by simp_all
  have "erase_opt (obnd (rx_iteration h sigs body1 s) (\<lambda>_. rx_for h sigs body1 (i + 1) n))
      = erase_opt (obnd (rx_iteration h sigs' body2 t) (\<lambda>_. rx_for h sigs' body2 (i + 1) n))"
  proof (rule obnd_cong)
    show "erase_opt (rx_iteration h sigs body1 s) = erase_opt (rx_iteration h sigs' body2 t)"
      using body Suc.prems by (rule rx_iteration_cong)
  next
    fix x :: unit and s t
    assume "erase s = erase t"
    then show "erase_opt (rx_for h sigs body1 (i + 1) n s) = erase_opt (rx_for h sigs' body2 (i + 1) n t)"
      using k by (rule Suc.hyps(1) [rotated])
  qed
  then show ?case
    using lt by (simp add: obnd_def split: option.split res.split)
qed

lemma fmt_neq [simp]:
  "''* Starting IO streaming\<newline>'' \<noteq> SIG_FMT"
  "''Error pushing buf %d\<newline>'' \<noteq> SIG_FMT"
  "''Error refilling buf %d\<newline>'' \<noteq> SIG_FMT"
  "DUMPED_FMT \<noteq> SIG_FMT"
  "RECEIVED_FMT \<noteq> SIG_FMT"
  by (simp_all add: SIG_FMT_def DUMPED_FMT_def RECEIVED_FMT_def)

lemma tx_section_cong:
  assumes "erase s0 = erase t0"
  shows "erase_opt (tx_section h sigs s0) = erase_opt (tx_section h sigs' t0)"
proof -
  let ?s = "(deliver sigs (emit (Printf ''* Starting IO streaming\<newline>'' []) s0))
              \<lparr>i_time := ddiv 1 (double_round (of_int (fs_hz txcfg)))\<rparr>"
  let ?t = "(deliver sigs' (emit (Printf ''* Starting IO streaming\<newline>'' []) t0))
              \<lparr>i_time := ddiv 1 (double_round (of_int (fs_hz txcfg)))\<rparr>"
  have e: "erase ?s = erase ?t"
    using assms by (simp add: erase_emit)
  have f: "nrefill ?s = nrefill ?t" "txbuf ?s = txbuf ?t" "tx0_i ?s = tx0_i ?t"
    using erase_eqD [OF e] by simp_all
  have walk: "erase_opt (for_each_elem (tx_body h sigs)
         (iio_buffer_first h (nrefill ?s) (txbuf ?s) (tx0_i ?s))
         (iio_buffer_end h (nrefill ?s) (txbuf ?s)) (iio_buffer_step h (nrefill ?s) (txbuf ?s)) ?s)
     = erase_opt (for_each_elem (tx_body h sigs')
         (iio_buffer_first h (nrefill ?t) (txbuf ?t) (tx0_i ?t))
         (iio_buffer_end h (nrefill ?t) (txbuf ?t)) (iio_buffer_step h (nrefill ?t) (txbuf ?t)) ?t)"
    unfolding f by (rule for_each_elem_erase [OF tx_body_cong e])
  show ?thesis
    unfolding tx_section_def Let_def
  proof (rule obnd_cong [OF walk])
    fix x :: unit and s t
    assume "erase s = erase t"
    then show "erase_opt (if iio_buffer_push h (txbuf s) < 0
          then Some (shutdown (emit (Printf ''Error pushing buf %d\<newline>''
                  [AInt (int_cast (iio_buffer_push h (txbuf s)))]) (emit (Iio_buffer_push (txbuf s)) s)))
          else Some (Cont () (emit (Iio_buffer_push (txbuf s)) s)))
      = erase_opt (if iio_buffer_push h (txbuf t) < 0
          then Some (shutdown (emit (Printf ''Error pushing buf %d\<newline>''
                  [AInt (int_cast (iio_buffer_push h (txbuf t)))]) (emit (Iio_buffer_push (txbuf t)) t)))
          else Some (Cont () (emit (Iio_buffer_push (txbuf t)) t)))"
      using erase_eqD(7) [of s t] by (simp add: erase_shutdown erase_emit)
  qed
qed

lemma rx_section_cong:
  assumes "erase s0 = erase t0"
  shows "erase_opt (rx_section h sigs s0) = erase_opt (rx_section h sigs' t0)"
  unfolding rx_section_def rx_warmup_def rx_capture_def Let_def
proof (rule obnd_cong)
  show "erase_opt (rx_for h sigs (warmup_body sigs) 0 2 s0)
      = erase_opt (rx_for h sigs' (warmup_body sigs') 0 2 t0)"
    by (rule rx_for_cong [OF warmup_body_cong assms])
next
  fix x :: unit and s t
  assume e: "erase s = erase t"
  have e': "erase (emit (Printf DUMPED_FMT [ASize (nrx s)]) s\<lparr>nrx := 0\<rparr>)
          = erase (emit (Printf DUMPED_FMT [ASize (nrx t)]) t\<lparr>nrx := 0\<rparr>)"
    using e erase_eqD(8) [OF e] by (simp add: erase_emit)
  show "erase_opt (obnd (rx_for h sigs (capture_body sigs) 0 40
                     (emit (Printf DUMPED_FMT [ASize (nrx s)]) s\<lparr>nrx := 0\<rparr>))
           (\<lambda>_ s. Some (Cont () (deliver sigs (emit (Printf RECEIVED_FMT [ASize (nrx s)]) s)))))
      = erase_opt (obnd (rx_for h sigs' (capture_body sigs') 0 40
                     (emit (Printf DUMPED_FMT [ASize (nrx t)]) t\<lparr>nrx := 0\<rparr>))
           (\<lambda>_ s. Some (Cont () (deliver sigs' (emit (Printf RECEIVED_FMT [ASize (nrx s)]) s)))))"
  proof (rule obnd_cong)
    show "erase_opt (rx_for h sigs (capture_body sigs) 0 40
                     (emit (Printf DUMPED_FMT [ASize (nrx s)]) s\<lparr>nrx := 0\<rparr>))
        = erase_opt (rx_for h sigs' (capture_body sigs') 0 40
                     (emit (Printf DUMPED_FMT [ASize (nrx t)]) t\<lparr>nrx := 0\<rparr>))"
      by (rule rx_for_cong [OF capture_body_cong e'])
  next
    fix x :: unit and s t
    assume e: "erase s = erase t"
    show "erase_opt (Some (Cont () (deliver sigs (emit (Printf RECEIVED_FMT [ASize (nrx s)]) s))))
        = erase_opt (Some (Cont () (deliver sigs' (emit (Printf RECEIVED_FMT [ASize (nrx t)]) t))))"
      using e erase_eqD(8) [OF e] by (simp add: erase_emit)
  qed
qed

lemma main_finish_cong:
  assumes "erase s = erase t"
  shows "erase_res (main_finish s) = erase_res (main_finish t)"
  using assms erase_eqD(10,11) [OF assms]
  by (simp add: main_finish_def Let_def erase_emit erase_shutdown)

lemma finish_cong:
  assumes "erase s = erase t"
  shows "erase_opt (obnd (rx_section h sigs s) (\<lambda>_ s. Some (main_finish s)))
      = erase_opt (obnd (rx_section h sigs' t) (\<lambda>_ s. Some (main_finish s)))"
proof (rule obnd_cong)
  show "erase_opt (rx_section h sigs s) = erase_opt (rx_section h sigs' t)"
    using assms by (rule rx_section_cong)
next
  fix x :: unit and s t
  assume "erase s = erase t"
  then show "erase_opt (Some (main_finish s)) = erase_opt (Some (main_finish t))"
    using main_finish_cong [of s t] by simp
qed

lemma streaming_cong:
  assumes "erase s = erase t"
  shows "erase_opt (obnd (tx_section h sigs s) (\<lambda>_ s. obnd (rx_section h sigs s) (\<lambda>_ s. Some (main_finish s))))
      = erase_opt (obnd (tx_section h sigs' t) (\<lambda>_ s. obnd (rx_section h sigs' s) (\<lambda>_ s. Some (main_finish s))))"
proof (rule obnd_cong)
  show "erase_opt (tx_section h sigs s) = erase_opt (tx_section h sigs' t)"
    using assms by (rule tx_section_cong)
next
  fix x :: unit and s t
  assume "erase s = erase t"
  then show "erase_opt (obnd (rx_section h sigs s) (\<lambda>_ s. Some (main_finish s)))
      = erase_opt (obnd (rx_section h sigs' t) (\<lambda>_ s. Some (main_finish s)))"
    by (rule finish_cong)
qed

lemma main_cong: "erase_opt (main h sigs argv) = erase_opt (main h sigs' argv)"
  unfolding main_def
proof (rule obnd_cong)
  show "erase_opt (Some (main_setup h argv init)) = erase_opt (Some (main_setup h argv init))"
    by (rule refl)
next
  fix x :: unit and s t
  assume "erase s = erase t"
  then show "erase_opt (obnd (tx_section h sigs s) (\<lambda>_ s. obnd (rx_section h sigs s) (\<lambda>_ s. Some (main_finish s))))
      = erase_opt (obnd (tx_section h sigs' t) (\<lambda>_ s. obnd (rx_section h sigs' s) (\<lambda>_ s. Some (main_finish s))))"
    by (rule streaming_cong)
qed

subsection \<open>Rounding\<close>

lemma rne_unique:
  assumes "\<bar>y - of_int m\<bar> < 1 / 2"
  shows "rne y = m"
proof (cases "of_int m \<le> y")
  case True
  with assms have "\<lfloor>y\<rfloor> = m"
    by (intro floor_unique) (simp_all add: abs_less_iff)
  with assms True show ?thesis
    by (simp add: rne_def Let_def abs_less_iff)
next
  case False
  with assms have f: "\<lfloor>y\<rfloor> = m - 1"
    by (intro floor_unique) (simp_all add: abs_less_iff)
  with assms False show ?thesis
    by (simp add: rne_def Let_def abs_less_iff)
qed

lemma rne_error: "\<bar>of_int (rne y) - y\<bar> \<le> 1 / 2"
proof -
  have "of_int \<lfloor>y\<rfloor> \<le> y" "y < of_int \<lfloor>y\<rfloor> + 1"
    by linarith+
  then show ?thesis
    by (auto simp add: rne_def Let_def abs_le_iff)
qed

lemma floor_log2_eq:
  assumes "2 powr of_int n \<le> x" "x < 2 powr of_int (n + 1)"
  shows "\<lfloor>log 2 x\<rfloor> = n"
proof -
  have p: "0 < x"
    using assms(1) powr_gt_zero [of 2 "of_int n"] by linarith
  have "of_int n \<le> log 2 x"
    using assms(1) p by (simp add: le_log_iff)
  moreover have "log 2 x < of_int n + 1"
    using assms(2) p by (simp add: log_less_iff)
  ultimately show ?thesis
    by (intro floor_unique) simp_all
qed

text \<open>
  A value in the binade of exponent \<open>e + p - 1\<close> is rounded on the grid of step \<open>2\<^sup>e\<close>: to
  \<open>m 2\<^sup>e\<close> when it is less than half a step away from it.
\<close>

lemma round_to_eq:
  assumes "2 powr of_int (e + int p - 1) \<le> \<bar>x\<bar>" "\<bar>x\<bar> < 2 powr of_int (e + int p)"
    and "emin \<le> e" and "\<bar>x / 2 powr of_int e - of_int m\<bar> < 1 / 2"
  shows "round_to p emin x = of_int m * 2 powr of_int e"
proof -
  have "0 < \<bar>x\<bar>"
    using assms(1) powr_gt_zero [of 2 "of_int (e + int p - 1)"] by linarith
  then have x: "x \<noteq> 0"
    by simp
  have "\<lfloor>log 2 \<bar>x\<bar>\<rfloor> = e + int p - 1"
    using assms(1,2) by (intro floor_log2_eq) (simp_all add: algebra_simps)
  then have "max (\<lfloor>log 2 \<bar>x\<bar>\<rfloor> - int p + 1) emin = e"
    using assms(3) by simp
  then show ?thesis
    using x rne_unique [OF assms(4)] by (simp add: round_to_def Let_def)
qed

lemma round_to_eq_neg:
  assumes "2 ^ (p - 1) \<le> \<bar>x\<bar> * 2 ^ k" "\<bar>x\<bar> * 2 ^ k < 2 ^ p" "0 < p"
    and "emin \<le> - int k" and "\<bar>x * 2 ^ k - of_int m\<bar> < 1 / 2"
  shows "round_to p emin x = of_int m / 2 ^ k"
proof -
  have e: "(2 :: real) powr of_int (- int k) = 1 / 2 ^ k"
    by (simp add: powr_minus_divide powr_realpow)
  have "of_int (- int k + int p - 1) = real (p - 1) - real k"
    using assms(3) by simp
  then have a: "(2 :: real) powr of_int (- int k + int p - 1) = 2 ^ (p - 1) / 2 ^ k"
    by (simp only: powr_diff powr_realpow)
  have "of_int (- int k + int p) = real p - real k"
    by simp
  then have b: "(2 :: real) powr of_int (- int k + int p) = 2 ^ p / 2 ^ k"
    by (simp only: powr_diff powr_realpow)
  have "round_to p emin x = of_int m * 2 powr of_int (- int k)"
  proof (rule round_to_eq)
    show "2 powr of_int (- int k + int p - 1) \<le> \<bar>x\<bar>"
      unfolding a using assms(1) by (simp add: field_simps)
    show "\<bar>x\<bar> < 2 powr of_int (- int k + int p)"
      unfolding b using assms(2) by (simp add: field_simps)
    show "emin \<le> - int k"
      by (rule assms(4))
    show "\<bar>x / 2 powr of_int (- int k) - of_int m\<bar> < 1 / 2"
      unfolding e using assms(5) by simp
  qed
  then show ?thesis
    unfolding e by simp
qed

text \<open>The error of rounding: half a step of the grid.\<close>

lemma round_to_error:
  "\<bar>round_to p emin x - x\<bar> \<le> \<bar>x\<bar> / 2 ^ p + 2 powr of_int emin"
proof (cases "x = 0")
  case True
  then show ?thesis by (simp add: round_to_def)
next
  case False
  define E where "E = \<lfloor>log 2 \<bar>x\<bar>\<rfloor>"
  define e where "e = max (E - int p + 1) emin"
  define s :: real where "s = 2 powr of_int e"
  have s: "0 < s"
    by (simp add: s_def)
  have r: "round_to p emin x = of_int (rne (x / s)) * s"
    using False by (simp add: round_to_def Let_def e_def E_def s_def)
  have "of_int (rne (x / s)) * s - x = (of_int (rne (x / s)) - x / s) * s"
    using s by (simp add: field_simps)
  then have "\<bar>of_int (rne (x / s)) * s - x\<bar> = \<bar>of_int (rne (x / s)) - x / s\<bar> * s"
    using s by (simp add: abs_mult)
  also have "\<dots> \<le> 1 / 2 * s"
    using rne_error [of "x / s"] s by (intro mult_right_mono) simp_all
  finally have a: "\<bar>round_to p emin x - x\<bar> \<le> s / 2"
    unfolding r by simp
  have "of_int E \<le> log 2 \<bar>x\<bar>"
    unfolding E_def by simp
  then have b: "2 powr of_int E \<le> \<bar>x\<bar>"
    using False by (simp add: le_log_iff)
  have "s = 2 powr of_int (E - int p + 1) \<or> s = 2 powr of_int emin"
    unfolding s_def e_def by (simp add: max_def)
  then have "s / 2 \<le> \<bar>x\<bar> / 2 ^ p + 2 powr of_int emin"
  proof
    assume "s = 2 powr of_int (E - int p + 1)"
    then have "s / 2 = 2 powr of_int E / 2 ^ p"
      by (simp add: powr_diff powr_add powr_realpow)
    also have "\<dots> \<le> \<bar>x\<bar> / 2 ^ p"
      using b by (simp add: divide_right_mono)
    finally show ?thesis
      using powr_gt_zero [of 2 "of_int emin"] by linarith
  next
    assume "s = 2 powr of_int emin"
    moreover have "0 \<le> \<bar>x\<bar> / 2 ^ p"
      by simp
    ultimately show ?thesis
      using s by linarith
  qed
  with a show ?thesis
    by linarith
qed

lemma double_round_near: "\<bar>double_round x - x\<bar> \<le> (\<bar>x\<bar> + 1) / 2 ^ 50"
proof -
  have "(2 :: real) powr of_int (- 1074) = 1 / 2 ^ 1074"
    by (simp add: powr_minus_divide powr_realpow del: powr_neg_numeral)
  also have "\<dots> \<le> 1 / 2 ^ 51"
    by (intro divide_left_mono power_increasing) simp_all
  finally have a: "(2 :: real) powr of_int (- 1074) \<le> 1 / 2 ^ 51" .
  have "\<bar>x\<bar> / 2 ^ 53 \<le> \<bar>x\<bar> / 2 ^ 51"
    by (intro divide_left_mono power_increasing) simp_all
  with a round_to_error [of 53 "- 1074" x] have "\<bar>double_round x - x\<bar> \<le> (\<bar>x\<bar> + 1) / 2 ^ 51"
    by (simp add: double_round_def add_divide_distrib)
  also have "\<dots> \<le> (\<bar>x\<bar> + 1) / 2 ^ 50"
    by (intro divide_left_mono power_increasing) simp_all
  finally show ?thesis .
qed

lemma double_round_le:
  assumes "\<bar>v\<bar> \<le> b"
  shows "\<bar>double_round v\<bar> \<le> b + (b + 1) / 2 ^ 50"
proof -
  have "(\<bar>v\<bar> + 1) / 2 ^ 50 \<le> (b + 1) / 2 ^ 50"
    using assms by (intro divide_right_mono) simp_all
  with double_round_near [of v] assms show ?thesis
    by linarith
qed

lemma double_round_between:
  assumes "a \<le> v" "v \<le> b" "0 \<le> a"
  shows "a - (b + 1) / 2 ^ 50 \<le> double_round v" "double_round v \<le> b + (b + 1) / 2 ^ 50"
proof -
  have "(\<bar>v\<bar> + 1) / 2 ^ 50 \<le> (b + 1) / 2 ^ 50"
    using assms by (intro divide_right_mono) simp_all
  with double_round_near [of v] assms
  show "a - (b + 1) / 2 ^ 50 \<le> double_round v" "double_round v \<le> b + (b + 1) / 2 ^ 50"
    by linarith+
qed

text \<open>The relative error, and a value known up to its sign.\<close>

lemma double_round_rel: "\<bar>double_round x - x\<bar> \<le> \<bar>x\<bar> / 2 ^ 53 + 1 / 2 ^ 100"
proof -
  have "(2 :: real) powr of_int (- 1074) = 1 / 2 ^ 1074"
    by (simp add: powr_minus_divide powr_realpow del: powr_neg_numeral)
  also have "\<dots> \<le> 1 / 2 ^ 100"
    by (intro divide_left_mono power_increasing) simp_all
  finally have "(2 :: real) powr of_int (- 1074) \<le> 1 / 2 ^ 100" .
  with round_to_error [of 53 "- 1074" x] show ?thesis
    by (simp add: double_round_def)
qed

lemma double_round_within:
  assumes "- b \<le> x" "x \<le> b"
  shows "x - (b / 2 ^ 53 + 1 / 2 ^ 100) \<le> double_round x"
    and "double_round x \<le> x + (b / 2 ^ 53 + 1 / 2 ^ 100)"
proof -
  have "\<bar>x\<bar> / 2 ^ 53 \<le> b / 2 ^ 53"
    using assms by (intro divide_right_mono) simp_all
  with double_round_rel [of x]
  show "x - (b / 2 ^ 53 + 1 / 2 ^ 100) \<le> double_round x"
    and "double_round x \<le> x + (b / 2 ^ 53 + 1 / 2 ^ 100)"
    by linarith+
qed

text \<open>A number with a significand of 53 bits is a \<^verbatim>\<open>double\<close>.\<close>

lemma double_round_exact:
  assumes "x * 2 ^ k = of_int m" "2 ^ 52 \<le> \<bar>m\<bar>" "\<bar>m\<bar> < 2 ^ 53" "k \<le> 1074"
  shows "double_round x = x"
proof -
  have a: "\<bar>x\<bar> * 2 ^ k = of_int \<bar>m\<bar>"
    using arg_cong [OF assms(1), of abs] by (simp add: abs_mult)
  have "round_to 53 (- 1074) x = of_int m / 2 ^ k"
  proof (rule round_to_eq_neg)
    show "2 ^ (53 - 1) \<le> \<bar>x\<bar> * 2 ^ k"
      unfolding a using assms(2) of_int_le_iff [of "2 ^ 52" "\<bar>m\<bar>", where ?'a = real] by simp
    show "\<bar>x\<bar> * 2 ^ k < 2 ^ 53"
      unfolding a using assms(3) of_int_less_iff [of "\<bar>m\<bar>" "2 ^ 53", where ?'a = real] by simp
    show "\<bar>x * 2 ^ k - of_int m\<bar> < 1 / 2"
      unfolding assms(1) by simp
  qed (use assms(4) in simp_all)
  also have "\<dots> = x"
    unfolding assms(1) [symmetric] by simp
  finally show ?thesis
    by (simp add: double_round_def)
qed

subsection \<open>The constants of the program\<close>

lemma M_PI_val: "M_PI = 7074237752028440 / 2 ^ 51"
  unfolding M_PI_def double_round_def
  by (rule round_to_eq_neg [where m = 7074237752028440, simplified]) simp_all

lemma two_pi_val: "dmul 2 M_PI = 7074237752028440 / 2 ^ 50"
  unfolding dmul_def double_round_def M_PI_val
  by (rule round_to_eq_neg [where m = 7074237752028440, simplified]) simp_all

lemma two_pi_f_val: "dmul (dmul 2 M_PI) 50000 = 5397215081808807 / 2 ^ 34"
  unfolding two_pi_val unfolding dmul_def double_round_def
  by (rule round_to_eq_neg [where m = 5397215081808807, simplified]) simp_all

text \<open>The \<^verbatim>\<open>float\<close> nearest to \<open>2 \<pi> 50000\<close>.\<close>

lemma freq_val: "freq = 314159.25"
proof -
  have "float_round (5397215081808807 / 2 ^ 34) = 10053096 / 2 ^ 5"
    unfolding float_round_def
    by (rule round_to_eq_neg [where m = 10053096, simplified]) simp_all
  then show ?thesis
    unfolding freq_def two_pi_f_val by simp
qed

lemma trunc_of_int_half: "0 \<le> n \<Longrightarrow> trunc (of_int n + 1 / 2) = n"
  unfolding trunc_def by (simp add: floor_unique)

lemma MHZ_3: "MHZ 3 = 3000000"
proof -
  have a: "double_round 3000000 = 3000000"
    by (rule double_round_exact [where k = 31 and m = 6442450944000000]) simp_all
  have b: "double_round (6000001 / 2) = 6000001 / 2"
    by (rule double_round_exact [where k = 31 and m = 6442452017741824]) simp_all
  show ?thesis
    using trunc_of_int_half [of 3000000] by (simp add: MHZ_def dmul_def dadd_def a b)
qed

lemma tx_consts:
  "freq = 314159.25" "ampl = 48" "double_round (of_int (fs_hz txcfg)) = 3000000"
proof -
  have "double_round 3000000 = 3000000"
    by (rule double_round_exact [where k = 31 and m = 6442450944000000]) simp_all
  then show "double_round (of_int (fs_hz txcfg)) = 3000000"
    by (simp add: txcfg_def MHZ_3)
qed (simp_all add: freq_val ampl_def)

lemma tx_time_0: "ddiv 1 (double_round (of_int (fs_hz txcfg))) = tx_time 0"
  by (simp add: tx_consts)

subsection \<open>The streaming loops, unrolled\<close>

lemma for_each_elem_Cont_positive:
  assumes "for_each_elem body p e inc s = Some (Cont () s')"
  shows "0 < inc \<or> e \<le> p"
proof -
  have "\<forall>s'. r = Cont () s' \<longrightarrow> 0 < inc \<or> e \<le> p" if "for_each_elem body p e inc s = Some r" for r
    using that
  proof (induction rule: for_each_elem.raw_induct [rotated 1, consumes 1])
    case (1 f b p e inc s r)
    show ?case
    proof (cases "p < e")
      case False
      then show ?thesis by simp
    next
      case True
      show ?thesis
      proof (cases "b p s")
        case (Halt s1)
        with 1(2) True have "r = Halt s1" by simp
        then show ?thesis by simp
      next
        case (Cont u s1)
        with 1(2) True have "f b (p + inc) e inc s1 = Some r" by simp
        from 1(1) [OF this] True show ?thesis by auto
      qed
    qed
  qed
  with assms show ?thesis by blast
qed

lemma for_each_elem_Cont:
  assumes "for_each_elem body p e inc s = Some (Cont () s')"
  shows "iter body (n_elems p e inc) p inc s = Cont () s'"
proof -
  from for_each_elem_Cont_positive [OF assms] show ?thesis
  proof
    assume "0 < inc"
    from for_each_elem_terminates [OF this, of body p e s] assms show ?thesis by simp
  next
    assume "e \<le> p"
    with for_each_elem_empty [OF this, of body inc s] assms show ?thesis
      by (simp add: n_elems_def)
  qed
qed


lemma upt_Suc_front: "[0..<Suc n] = 0 # map Suc [0..<n]"
  by (simp add: upt_conv_Cons map_Suc_upt del: upt_Suc)

lemma concat_map_Suc_front:
  "concat (map g [0..<Suc n]) = g 0 @ concat (map (\<lambda>j. g (Suc j)) [0..<n])"
  by (simp add: upt_Suc_front comp_def del: upt_Suc)

lemma iter_warmup:
  "\<exists>s'. iter (warmup_body sigs) n p inc s = Cont () s' \<and> erase s' = (erase s)\<lparr>nrx := nrx s + of_nat n\<rparr>"
proof (induction n arbitrary: p s)
  case 0
  show ?case by simp
next
  case (Suc n)
  let ?s1 = "(deliver sigs s)\<lparr>nrx := nrx s + 1\<rparr>"
  have b: "warmup_body sigs p s = Cont () ?s1"
    by (simp add: warmup_body_def Let_def)
  from Suc [of "p + inc" ?s1] obtain s' where
    "iter (warmup_body sigs) n (p + inc) inc ?s1 = Cont () s'"
    "erase s' = (erase ?s1)\<lparr>nrx := nrx ?s1 + of_nat n\<rparr>"
    by blast
  then show ?case
    using b by (simp add: add.assoc)
qed

lemma capture_body_eq:
  "capture_body sigs p s =
     (if foutp s = 0
      then Halt (emit Undefined (load16 (p + 2) (load16 p (deliver sigs s))\<lparr>nrx := nrx s + 1\<rparr>))
      else Cont () ((deliver sigs s)\<lparr>nrx := nrx s + 1,
             trace := trace (deliver sigs s) @ capture_events (foutp s) (mem s) p\<rparr>))"
  by (simp add: capture_body_def Let_def load16_def emit_def capture_events_def)

lemma prog_capture_events [simp]: "prog (capture_events f m p) = capture_events f m p"
  by (simp add: capture_events_def prog_Cons)

lemma prog_tx_events [simp]: "prog (tx_events h f k p) = tx_events h f k p"
  by (simp add: tx_events_def prog_Cons)

lemma erase_trace_upd [simp]: "erase (s\<lparr>trace := tr\<rparr>) = (erase s)\<lparr>trace := prog tr\<rparr>"
  by (simp add: erase_def)

lemma iter_capture_Cont:
  assumes "iter (capture_body sigs) n p inc s = Cont () s'"
  shows "erase s' = (erase s)\<lparr>nrx := nrx s + of_nat n,
           trace := prog (trace s) @
             concat (map (\<lambda>j. capture_events (foutp s) (mem s) (p + int j * inc)) [0..<n])\<rparr>
         \<and> (0 < n \<longrightarrow> foutp s \<noteq> 0)"
  using assms
proof (induction n arbitrary: p s)
  case 0
  then show ?case by simp
next
  case (Suc n)
  let ?s1 = "(deliver sigs s)\<lparr>nrx := nrx s + 1,
             trace := trace (deliver sigs s) @ capture_events (foutp s) (mem s) p\<rparr>"
  from Suc.prems have f: "foutp s \<noteq> 0"
    by (auto simp add: capture_body_eq [of sigs p s] split: if_splits)
  with Suc.prems have "iter (capture_body sigs) n (p + inc) inc ?s1 = Cont () s'"
    by (simp add: capture_body_eq [of sigs p s])
  from Suc.IH [OF this]
  have "erase s' = (erase ?s1)\<lparr>nrx := nrx ?s1 + of_nat n,
           trace := prog (trace ?s1) @
             concat (map (\<lambda>j. capture_events (foutp ?s1) (mem ?s1) (p + inc + int j * inc)) [0..<n])\<rparr>"
    by simp
  moreover have "\<And>j. p + inc + int j * inc = p + int (Suc j) * inc"
    by (simp add: algebra_simps)
  ultimately show ?case
    using f by (simp add: concat_map_Suc_front [where n = n] add.assoc deliver_eq del: upt_Suc)
qed

lemma iter_capture_ok:
  "foutp s \<noteq> 0 \<Longrightarrow> \<exists>s'. iter (capture_body sigs) n p inc s = Cont () s'"
proof (induction n arbitrary: p s)
  case 0
  show ?case by simp
next
  case (Suc n)
  let ?s1 = "(deliver sigs s)\<lparr>nrx := nrx s + 1,
             trace := trace (deliver sigs s) @ capture_events (foutp s) (mem s) p\<rparr>"
  have "foutp ?s1 \<noteq> 0" using Suc.prems by simp
  from Suc.IH [OF this, of "p + inc"] Suc.prems show ?case
    by (simp add: capture_body_eq [of sigs p s])
qed

lemma short_of_double_Some:
  "short_of_double v = Some q \<Longrightarrow> q AND 0xFFF0 = q_sample v"
  by (auto simp add: short_of_double_def q_sample_def Let_def split: if_splits)

lemma tx_body_eq:
  assumes "i_time s = tx_time k"
  shows "tx_body h sigs p s =
     (case short_of_double (tx_wave h k) of
        None \<Rightarrow> Halt (emit Undefined (deliver sigs s))
      | Some q \<Rightarrow>
          if finp s = 0
          then Halt (emit Undefined (load16 (p + 2) (load16 p
                 (store16 (p + 2) (q AND 0xFFF0) (store16 p 0 (deliver sigs s))))))
          else Cont () ((deliver sigs s)\<lparr>i_time := tx_time (Suc k),
                 mem := (mem s)(p := 0, p + 2 := q_sample (tx_wave h k)),
                 trace := trace (deliver sigs s) @ tx_events h (finp s) k p\<rparr>))"
proof -
  have w: "dmul (dmul ampl (libm_cos h (dmul freq (i_time s)))) 16 = tx_wave h k"
    unfolding tx_wave_def tx_consts assms ..
  have i: "dadd (i_time s) (ddiv 1 (double_round (of_int (fs_hz txcfg)))) = tx_time (Suc k)"
    unfolding tx_consts assms by simp
  show ?thesis
    unfolding tx_body_def Let_def deliver_fields w
    by (auto simp add: store16_def load16_def emit_def tx_events_def short_of_double_Some i
        split: option.split)
qed

lemma iter_tx_Cont:
  assumes "iter (tx_body h sigs) n p inc s = Cont () s'" and "i_time s = tx_time k0"
  shows "(\<exists>m'. erase s' = (erase s)\<lparr>i_time := tx_time (k0 + n), mem := m',
           trace := prog (trace s) @
             concat (map (\<lambda>j. tx_events h (finp s) (k0 + j) (p + int j * inc)) [0..<n])\<rparr>)
         \<and> (0 < n \<longrightarrow> finp s \<noteq> 0)
         \<and> (\<forall>j<n. short_of_double (tx_wave h (k0 + j)) \<noteq> None)"
  using assms
proof (induction n arbitrary: p s k0)
  case 0
  then have "erase s' = (erase s)\<lparr>i_time := tx_time (k0 + 0), mem := mem s, trace := prog (trace s) @
             concat (map (\<lambda>j. tx_events h (finp s) (k0 + j) (p + int j * inc)) [0..<0])\<rparr>"
    by (simp add: erase_def)
  then show ?case by blast
next
  case (Suc n)
  let ?s1 = "(deliver sigs s)\<lparr>i_time := tx_time (Suc k0),
                 mem := (mem s)(p := 0, p + 2 := q_sample (tx_wave h k0)),
                 trace := trace (deliver sigs s) @ tx_events h (finp s) k0 p\<rparr>"
  note b = tx_body_eq [OF Suc.prems(2), of h sigs p]
  from Suc.prems(1) have c: "short_of_double (tx_wave h k0) \<noteq> None" and f: "finp s \<noteq> 0"
    by (auto simp add: b split: option.splits if_splits)
  with Suc.prems(1) have "iter (tx_body h sigs) n (p + inc) inc ?s1 = Cont () s'"
    by (auto simp add: b)
  moreover have "i_time ?s1 = tx_time (Suc k0)"
    by simp
  ultimately have r: "(\<exists>m'. erase s' = (erase ?s1)\<lparr>i_time := tx_time (Suc k0 + n), mem := m',
           trace := prog (trace ?s1) @
             concat (map (\<lambda>j. tx_events h (finp ?s1) (Suc k0 + j) (p + inc + int j * inc)) [0..<n])\<rparr>)
         \<and> (0 < n \<longrightarrow> finp ?s1 \<noteq> 0)
         \<and> (\<forall>j<n. short_of_double (tx_wave h (Suc k0 + j)) \<noteq> None)"
    by (rule Suc.IH)
  from conjunct1 [OF r] obtain m' where
    e: "erase s' = (erase ?s1)\<lparr>i_time := tx_time (Suc k0 + n), mem := m',
           trace := prog (trace ?s1) @
             concat (map (\<lambda>j. tx_events h (finp ?s1) (Suc k0 + j) (p + inc + int j * inc)) [0..<n])\<rparr>"
    by (rule exE)
  from r have a: "\<forall>j<n. short_of_double (tx_wave h (Suc k0 + j)) \<noteq> None"
    by (rule conjunct2 [OF conjunct2])
  have ar: "\<And>j. p + inc + int j * inc = p + int (Suc j) * inc"
    by (simp add: algebra_simps)
  have "erase s' = (erase s)\<lparr>i_time := tx_time (k0 + Suc n), mem := m',
           trace := prog (trace s) @
             concat (map (\<lambda>j. tx_events h (finp s) (k0 + j) (p + int j * inc)) [0..<Suc n])\<rparr>"
    using e by (simp add: concat_map_Suc_front [where n = n] ar deliver_eq del: upt_Suc)
  moreover have "\<forall>j<Suc n. short_of_double (tx_wave h (k0 + j)) \<noteq> None"
  proof (intro allI impI)
    fix j assume "j < Suc n"
    then show "short_of_double (tx_wave h (k0 + j)) \<noteq> None"
      using c a by (cases j) simp_all
  qed
  ultimately show ?case
    using f by blast
qed

lemma iter_tx_ok:
  assumes "finp s \<noteq> 0" and "\<forall>j<n. short_of_double (tx_wave h (k0 + j)) \<noteq> None"
    and "i_time s = tx_time k0"
  shows "\<exists>s'. iter (tx_body h sigs) n p inc s = Cont () s'"
  using assms
proof (induction n arbitrary: p s k0)
  case 0
  show ?case by simp
next
  case (Suc n)
  let ?s1 = "(deliver sigs s)\<lparr>i_time := tx_time (Suc k0),
                 mem := (mem s)(p := 0, p + 2 := q_sample (tx_wave h k0)),
                 trace := trace (deliver sigs s) @ tx_events h (finp s) k0 p\<rparr>"
  have "finp ?s1 \<noteq> 0" using Suc.prems(1) by simp
  moreover have "\<forall>j<n. short_of_double (tx_wave h (Suc k0 + j)) \<noteq> None"
    using Suc.prems(2) by auto
  moreover have "i_time ?s1 = tx_time (Suc k0)"
    by simp
  ultimately obtain s' where "iter (tx_body h sigs) n (p + inc) inc ?s1 = Cont () s'"
    using Suc.IH [of ?s1 "Suc k0" "p + inc"] by blast
  moreover from Suc.prems(2) have "short_of_double (tx_wave h k0) \<noteq> None"
    by auto
  ultimately show ?case
    using Suc.prems(1) by (auto simp add: tx_body_eq [OF Suc.prems(3), of h sigs p])
qed

lemma obnd_Cont:
  assumes "obnd r f = Some (Cont y s')"
  obtains x s1 where "r = Some (Cont x s1)" "f x s1 = Some (Cont y s')"
  using assms by (auto simp add: obnd_def split: option.splits res.splits)

lemma filter_prog:
  assumes "\<And>e. P e \<Longrightarrow> \<not> is_sig_msg e"
  shows "filter P (prog tr) = filter P tr"
  using assms by (induction tr) (auto simp add: prog_def)

lemma tx_section_Cont:
  assumes "tx_section h sigs s0 = Some (Cont () s')"
  defines "F \<equiv> iio_buffer_first h (nrefill s0) (txbuf s0) (tx0_i s0)"
    and "E \<equiv> iio_buffer_end h (nrefill s0) (txbuf s0)"
    and "I \<equiv> iio_buffer_step h (nrefill s0) (txbuf s0)"
  shows "prog (trace s') = prog (trace s0) @ [Printf ''* Starting IO streaming\<newline>'' []]
           @ concat (map (\<lambda>k. tx_events h (finp s0) k (F + int k * I)) [0..<n_elems F E I])
           @ [Iio_buffer_push (txbuf s0)]"
    and "\<forall>k<n_elems F E I. short_of_double (tx_wave h k) \<noteq> None"
    and "0 < n_elems F E I \<longrightarrow> finp s0 \<noteq> 0"
    and "0 \<le> iio_buffer_push h (txbuf s0)"
proof -
  let ?s = "(deliver sigs (emit (Printf ''* Starting IO streaming\<newline>'' []) s0))\<lparr>i_time := tx_time 0\<rparr>"
  have g: "nrefill ?s = nrefill s0" "txbuf ?s = txbuf s0" "tx0_i ?s = tx0_i s0"
    by simp_all
  have it: "i_time ?s = tx_time 0"
    by simp
  from assms(1) obtain x s1 where
    w: "for_each_elem (tx_body h sigs) F E I ?s = Some (Cont x s1)"
    and p: "(if iio_buffer_push h (txbuf s1) < 0
             then Some (shutdown (emit (Printf ''Error pushing buf %d\<newline>''
                     [AInt (int_cast (iio_buffer_push h (txbuf s1)))]) (emit (Iio_buffer_push (txbuf s1)) s1)))
             else Some (Cont () (emit (Iio_buffer_push (txbuf s1)) s1))) = Some (Cont () s')"
    unfolding tx_section_def Let_def tx_time_0 g F_def E_def I_def by (rule obnd_Cont)
  from for_each_elem_Cont [of _ F E I ?s s1] w
  have "iter (tx_body h sigs) (n_elems F E I) F I ?s = Cont () s1"
    by simp
  note r = iter_tx_Cont [OF this it]
  from r have f: "0 < n_elems F E I \<longrightarrow> finp ?s \<noteq> 0"
    and c: "\<forall>j<n_elems F E I. short_of_double (tx_wave h (0 + j)) \<noteq> None"
    by (rule conjunct1 [OF conjunct2], rule conjunct2 [OF conjunct2])
  from conjunct1 [OF r] obtain m' where
    e: "erase s1 = (erase ?s)\<lparr>i_time := tx_time (0 + n_elems F E I), mem := m',
           trace := prog (trace ?s) @
             concat (map (\<lambda>j. tx_events h (finp ?s) (0 + j) (F + int j * I)) [0..<n_elems F E I])\<rparr>"
    by (rule exE)
  have tb: "txbuf s1 = txbuf s0"
    using arg_cong [OF e, of txbuf] by simp
  from p have ok: "0 \<le> iio_buffer_push h (txbuf s1)" and s': "s' = emit (Iio_buffer_push (txbuf s1)) s1"
    by (auto simp add: shutdown_eq split: if_splits)
  have "prog (trace s1) = prog (trace s0) @ [Printf ''* Starting IO streaming\<newline>'' []]
           @ concat (map (\<lambda>k. tx_events h (finp s0) k (F + int k * I)) [0..<n_elems F E I])"
    using arg_cong [OF e, of trace] by (simp add: deliver_eq prog_Cons)
  then show "prog (trace s') = prog (trace s0) @ [Printf ''* Starting IO streaming\<newline>'' []]
           @ concat (map (\<lambda>k. tx_events h (finp s0) k (F + int k * I)) [0..<n_elems F E I])
           @ [Iio_buffer_push (txbuf s0)]"
    unfolding s' by (simp add: tb prog_Cons)
  from c show "\<forall>k<n_elems F E I. short_of_double (tx_wave h k) \<noteq> None"
    by simp
  from f show "0 < n_elems F E I \<longrightarrow> finp s0 \<noteq> 0"
    by simp
  from ok tb show "0 \<le> iio_buffer_push h (txbuf s0)"
    by simp
qed

subsection \<open>The transmit fill\<close>

lemma and_minus_16: "(k :: int) AND - 16 = 16 * (k div 16)"
proof -
  have m: "(- 16 :: int) = NOT (mask 4)"
    by (simp add: mask_eq_exp_minus_1 not_int_def)
  have "k AND NOT (mask 4) = push_bit 4 (drop_bit 4 k)"
    by (rule bit_eqI) (auto simp add: bit_simps)
  then show ?thesis
    unfolding m by (simp add: push_bit_eq_mult drop_bit_eq_div)
qed

lemma sint_masked:
  assumes "- 32768 \<le> t" "t \<le> 32767"
  shows "sint (word_of_int t AND 0xFFF0 :: 16 word) = 16 * (t div 16)"
proof -
  have c: "(0xFFF0 :: 16 word) = word_of_int (- 16)"
    by simp
  have w: "(word_of_int t AND 0xFFF0 :: 16 word) = word_of_int (16 * (t div 16))"
    unfolding c word_wi_log_defs and_minus_16 ..
  have "- 32768 \<le> 16 * (t div 16)" "16 * (t div 16) \<le> 32767"
    using assms by simp_all
  then have "signed_take_bit 15 (16 * (t div 16)) = 16 * (t div 16)"
    by (intro signed_take_bit_int_eq_self) simp_all
  then show ?thesis
    unfolding w by (simp only: sint_sbintrunc') simp
qed

lemma low_bits_clear: "((w :: 16 word) AND 0xFFF0) AND 0x000F = 0"
  by (simp add: word_bw_assocs)

lemma cos_lower: "1 - x\<^sup>2 / 2 \<le> cos (x :: real)"
proof -
  have "cos (2 * (x / 2)) = 1 - 2 * (sin (x / 2))\<^sup>2"
    by (rule cos_double_sin)
  moreover have "(sin (x / 2))\<^sup>2 \<le> (x / 2)\<^sup>2"
    using abs_sin_x_le_abs_x [of "x / 2"] by (metis abs_le_square_iff)
  ultimately show ?thesis
    by (simp add: power2_eq_square field_simps)
qed

lemma cos_pi_30_bounds: "223 / 225 \<le> cos (pi / 30)" "cos (pi / 30) < 1"
proof -
  have p: "0 < pi / 30" "pi / 30 < 2 / 15"
    using pi_gt_zero pi_less_4 by simp_all
  then have "(pi / 30)\<^sup>2 < (2 / 15)\<^sup>2"
    by (intro power_strict_mono) simp_all
  with cos_lower [of "pi / 30"] show "223 / 225 \<le> cos (pi / 30)"
    by (simp add: power2_eq_square)
  have "pi / 30 < 2 * pi"
    using pi_gt_zero by simp
  have "cos (pi / 30) \<noteq> 1"
  proof
    assume "cos (pi / 30) = 1"
    then have "sin (pi / 30) = 0"
      using sin_cos_squared_add [of "pi / 30"] by simp
    moreover have "0 < sin (pi / 30)"
      using p pi_gt_zero by (intro sin_gt_zero) simp_all
    ultimately show False by simp
  qed
  with cos_le_one [of "pi / 30"] show "cos (pi / 30) < 1"
    by linarith
qed

lemma q_sample_low_bits: "q_sample v AND 0x000F = 0"
  by (simp add: q_sample_def low_bits_clear)

lemma short_of_double_range:
  "short_of_double v \<noteq> None \<Longrightarrow> - 32768 \<le> trunc v \<and> trunc v \<le> 32767"
  by (simp add: short_of_double_def Let_def split: if_splits)

lemma sint_q_sample:
  "short_of_double v \<noteq> None \<Longrightarrow> sint (q_sample v) = 16 * (trunc v div 16)"
  using short_of_double_range [of v] by (simp add: q_sample_def sint_masked)

lemma filter_concat_map: "filter P (concat (map g xs)) = concat (map (\<lambda>x. filter P (g x)) xs)"
  by (induction xs) simp_all

lemma concat_map_single: "concat (map (\<lambda>x. [g x]) xs) = map g xs"
  by (induction xs) simp_all

lemma is_store_not_sig: "is_store e \<Longrightarrow> \<not> is_sig_msg e"
  by (cases e) simp_all

lemma is_row_not_sig: "is_row f e \<Longrightarrow> \<not> is_sig_msg e"
  by (cases e) simp_all

lemma tx_section_stores:
  assumes "tx_section h sigs s0 = Some (Cont () s')"
  defines "F \<equiv> iio_buffer_first h (nrefill s0) (txbuf s0) (tx0_i s0)"
    and "E \<equiv> iio_buffer_end h (nrefill s0) (txbuf s0)"
    and "I \<equiv> iio_buffer_step h (nrefill s0) (txbuf s0)"
  shows "filter is_store (trace s') = filter is_store (trace s0) @
               concat (map (\<lambda>k. [Store16 (F + int k * I) 0,
                                   Store16 (F + int k * I + 2) (q_sample (tx_wave h k))]) [0..<n_elems F E I])"
proof -
  note t = tx_section_Cont [OF assms(1), folded F_def E_def I_def]
  have st: "filter is_store (trace s') = filter is_store (prog (trace s'))"
    and st0: "filter is_store (prog (trace s0)) = filter is_store (trace s0)"
    by (simp_all add: filter_prog is_store_not_sig)
  show ?thesis
    unfolding st t(1) by (simp add: filter_concat_map tx_events_def st0)
qed

lemma trunc_between:
  "of_int a \<le> v \<Longrightarrow> v < of_int b \<Longrightarrow> 0 \<le> a \<Longrightarrow> a \<le> trunc v \<and> trunc v < b"
  unfolding trunc_def by (auto simp add: le_floor_iff floor_less_iff)

lemma trunc_abs: "\<bar>v\<bar> \<le> of_int n \<Longrightarrow> \<bar>trunc v\<bar> \<le> n"
  unfolding trunc_def by (auto simp add: abs_le_iff floor_le_iff le_floor_iff ceiling_le_iff le_ceiling_iff) linarith+

lemma q_sample_752:
  assumes "752 \<le> v" "v < 768"
  shows "sint (q_sample v) = 752"
proof -
  from trunc_between [of 752 v 768] assms have t: "752 \<le> trunc v" "trunc v < 768"
    by simp_all
  then have "short_of_double v \<noteq> None"
    by (simp add: short_of_double_def Let_def)
  from sint_q_sample [OF this] t show ?thesis
    by simp
qed

lemma concat_pairs_nth:
  "k < n \<Longrightarrow> concat (map (\<lambda>k. [f k, g k]) [0..<n]) ! (2 * k + 1) = g k"
proof (induction n)
  case 0
  then show ?case by simp
next
  case (Suc n)
  have l: "length (concat (map (\<lambda>k. [f k, g k]) [0..<n])) = 2 * n"
    by (induction n) simp_all
  show ?case
  proof (cases "k < n")
    case True
    with Suc.IH l show ?thesis
      by (simp add: nth_append)
  next
    case False
    with Suc.prems have "k = n" by simp
    with l show ?thesis
      by (simp add: nth_append)
  qed
qed

text \<open>Bounds of the cosine and of \<open>\<pi>\<close>, from the series of the cosine and of the sine.\<close>

lemma cos_upper:
  fixes x :: real
  assumes "0 < x"
  shows "cos x \<le> 1 - x\<^sup>2 / 2 + x ^ 4 / 24"
proof -
  from Maclaurin_cos_expansion2 [where x = x and n = 4] assms obtain t where
    t: "cos x = (\<Sum>m<4. cos_coeff m * x ^ m) + cos (t + 1 / 2 * real 4 * pi) / fact 4 * x ^ 4"
    by auto
  have c: "cos_coeff 0 = 1" "cos_coeff (Suc 0) = 0" "cos_coeff 2 = - 1 / 2" "cos_coeff 3 = 0"
    by (simp_all add: cos_coeff_def fact_num_eq_if)
  have "(\<Sum>m<4. cos_coeff m * x ^ m) = (\<Sum>m\<in>{0, 1, 2, 3}. cos_coeff m * x ^ m)"
    by (intro sum.cong) auto
  also have "\<dots> = 1 - x\<^sup>2 / 2"
    by (simp add: c)
  finally have s: "(\<Sum>m<4. cos_coeff m * x ^ m) = 1 - x\<^sup>2 / 2" .
  have f: "fact 4 = (24 :: real)"
    by (simp add: numeral_eq_Suc)
  have "cos (t + 1 / 2 * real 4 * pi) * x ^ 4 \<le> 1 * x ^ 4"
    by (intro mult_right_mono cos_le_one) simp
  then show ?thesis
    unfolding t s f by simp
qed

lemma cos_lipschitz: "\<bar>cos x - cos y\<bar> \<le> \<bar>x - y\<bar>" for x y :: real
proof -
  have "\<bar>cos x - cos y\<bar> = 2 * \<bar>sin ((x + y) / 2)\<bar> * \<bar>sin ((y - x) / 2)\<bar>"
    unfolding cos_diff_cos by (simp add: abs_mult)
  also have "\<dots> \<le> 2 * 1 * \<bar>(y - x) / 2\<bar>"
    by (intro mult_mono abs_sin_x_le_abs_x) simp_all
  finally show ?thesis
    by simp
qed

lemma cos_within:
  fixes x y :: real
  assumes "y - d \<le> x" "x \<le> y + d"
  shows "cos y - d \<le> cos x" "cos x \<le> cos y + d"
  using cos_lipschitz [of x y] assms by linarith+

lemma sin_taylor:
  fixes x :: real
  assumes "0 < x" "0 < n"
  shows "\<bar>sin x - (\<Sum>m<n. sin_coeff m * x ^ m)\<bar> \<le> x ^ n / fact n"
proof -
  from Maclaurin_sin_expansion3 [OF assms(2,1)] obtain t where
    t: "sin x = (\<Sum>m<n. sin_coeff m * x ^ m) + sin (t + 1 / 2 * real n * pi) / fact n * x ^ n"
    by auto
  have "\<bar>sin (t + 1 / 2 * real n * pi) * (x ^ n / fact n)\<bar> \<le> 1 * (x ^ n / fact n)"
    unfolding abs_mult using assms(1) by (intro mult_mono) simp_all
  then show ?thesis
    unfolding t by simp
qed

lemma sin_coeffs:
  "sin_coeff 0 = 0" "sin_coeff 1 = 1" "sin_coeff 2 = 0" "sin_coeff 3 = - 1 / fact 3"
  "sin_coeff 4 = 0" "sin_coeff 5 = 1 / fact 5" "sin_coeff 6 = 0" "sin_coeff 7 = - 1 / fact 7"
  "sin_coeff 8 = 0" "sin_coeff 9 = 1 / fact 9" "sin_coeff 10 = 0" "sin_coeff 11 = - 1 / fact 11"
  "sin_coeff 12 = 0" "sin_coeff 13 = 1 / fact 13" "sin_coeff 14 = 0" "sin_coeff 15 = - 1 / fact 15"
  "sin_coeff 16 = 0" "sin_coeff 17 = 1 / fact 17" "sin_coeff 18 = 0" "sin_coeff 19 = - 1 / fact 19"
  by (simp_all add: sin_coeff_def)

lemma sum_14: "(\<Sum>m<14. f m) = f (0 :: nat) + f 1 + f 2 + f 3 + f 4 + f 5 + f 6 + f 7 + f 8 + f 9
    + f 10 + f 11 + f 12 + (f 13 :: real)"
  by (simp add: eval_nat_numeral)

lemma sum_20: "(\<Sum>m<20. f m) = f (0 :: nat) + f 1 + f 2 + f 3 + f 4 + f 5 + f 6 + f 7 + f 8 + f 9
    + f 10 + f 11 + f 12 + f 13 + f 14 + f 15 + f 16 + f 17 + f 18 + (f 19 :: real)"
  by (simp add: eval_nat_numeral)

lemma pi_lower: "105414355 / 33554432 < pi"
proof -
  define a :: real where "a = 105414355 / 33554432"
  have "0 < (\<Sum>m<20. sin_coeff m * a ^ m) - a ^ 20 / fact 20"
    unfolding sum_20 sin_coeffs a_def by (simp add: fact_numeral power_divide)
  with sin_taylor [of a 20] have s: "0 < sin a"
    by (simp add: a_def abs_le_iff)
  have "a < 2 * pi"
    using pi_ge_two by (simp add: a_def)
  have "a < pi"
  proof (rule ccontr)
    assume "\<not> a < pi"
    then have "pi \<le> a" by simp
    from sin_le_zero [OF this \<open>a < 2 * pi\<close>] s show False by simp
  qed
  then show ?thesis
    by (simp add: a_def)
qed

lemma pi_upper: "pi < 16 / 5"
proof -
  define b :: real where "b = 16 / 5"
  have "(\<Sum>m<14. sin_coeff m * b ^ m) + b ^ 14 / fact 14 < 0"
    unfolding sum_14 sin_coeffs b_def by (simp add: fact_numeral power_divide)
  with sin_taylor [of b 14] have s: "sin b < 0"
    by (simp add: b_def abs_le_iff)
  have "pi < b"
  proof (rule ccontr)
    assume "\<not> pi < b"
    then have "b \<le> pi" by simp
    moreover have "0 \<le> b" by (simp add: b_def)
    ultimately have "0 \<le> sin b" by (intro sin_ge_zero)
    with s show False by simp
  qed
  then show ?thesis
    by (simp add: b_def)
qed

text \<open>
  The sample time and the product, against the real numbers they stand for: the error of
  the sum after \<open>k\<close> additions, and of the product.
\<close>

lemma tx_time_near:
  "k < 1024 \<Longrightarrow> (real k + 1) / 3000000 - (2 * real k + 1) / 2 ^ 63 \<le> tx_time k
     \<and> tx_time k \<le> (real k + 1) / 3000000 + (2 * real k + 1) / 2 ^ 63"
proof (induction k)
  case 0
  from double_round_within [of "1 / 3000000" "1 / 3000000"] show ?case
    by (simp add: ddiv_def)
next
  case (Suc k)
  define s where "s = tx_time k + tx_time 0"
  have k: "real k \<le> 1022" "0 \<le> real k"
    using Suc.prems by simp_all
  from double_round_within [of "1 / 3000000" "1 / 3000000"]
  have e0: "1 / 3000000 - 1 / 2 ^ 63 \<le> tx_time 0" "tx_time 0 \<le> 1 / 3000000 + 1 / 2 ^ 63"
    by (simp_all add: ddiv_def)
  have ek: "(real k + 1) / 3000000 - (2 * real k + 1) / 2 ^ 63 \<le> tx_time k"
    "tx_time k \<le> (real k + 1) / 3000000 + (2 * real k + 1) / 2 ^ 63"
    using Suc by simp_all
  have a: "(real k + 2) / 3000000 - (2 * real k + 2) / 2 ^ 63 \<le> s"
    "s \<le> (real k + 2) / 3000000 + (2 * real k + 2) / 2 ^ 63"
    unfolding s_def using e0 ek by (simp_all add: add_divide_distrib)
  have "- (1 / 2 ^ 11) \<le> s" "s \<le> 1 / 2 ^ 11"
    using a k by (simp_all add: add_divide_distrib)
  from double_round_within [OF this]
  have "s - 1 / 2 ^ 63 \<le> double_round s" "double_round s \<le> s + 1 / 2 ^ 63"
    by simp_all
  with a have "(real k + 2) / 3000000 - (2 * real k + 3) / 2 ^ 63 \<le> double_round s"
    "double_round s \<le> (real k + 2) / 3000000 + (2 * real k + 3) / 2 ^ 63"
    by (simp_all add: add_divide_distrib)
  moreover have "tx_time (Suc k) = double_round s"
    by (simp add: s_def dadd_def)
  ultimately show ?case
    by (simp add: add_divide_distrib)
qed

lemma tx_wave_near:
  assumes c: "\<And>x. \<bar>libm_cos h x - cos x\<bar> \<le> 1 / 2 ^ 52" and k: "k < 1024"
  shows "\<bar>tx_wave h k - 768 * cos (314159.25 * ((real k + 1) / 3000000))\<bar> \<le> 1 / 10 ^ 6"
proof -
  define t where "t = (real k + 1) / 3000000"
  define x where "x = dmul 314159.25 (tx_time k)"
  define C where "C = cos (314159.25 * t)"
  define p where "p = dmul 48 (libm_cos h x)"
  have kk: "real k \<le> 1023" "0 \<le> real k"
    using k by simp_all
  have t: "0 \<le> t" "t \<le> 1 / 2 ^ 11 - 1 / 2 ^ 20"
    using kk by (simp_all add: t_def)
  have "t - (2 * real k + 1) / 2 ^ 63 \<le> tx_time k" "tx_time k \<le> t + (2 * real k + 1) / 2 ^ 63"
    using tx_time_near [OF k] unfolding t_def by simp_all
  with kk have e: "t - 2047 / 2 ^ 63 \<le> tx_time k" "tx_time k \<le> t + 2047 / 2 ^ 63"
    by (simp_all add: add_divide_distrib)
  have "- 154 \<le> 314159.25 * tx_time k" "314159.25 * tx_time k \<le> 154"
    using e t by simp_all
  from double_round_within [OF this]
  have "314159.25 * tx_time k - 1 / 10 ^ 13 \<le> x" "x \<le> 314159.25 * tx_time k + 1 / 10 ^ 13"
    unfolding x_def dmul_def by simp_all
  with e have "314159.25 * t - 1 / 10 ^ 10 \<le> x" "x \<le> 314159.25 * t + 1 / 10 ^ 10"
    by simp_all
  from cos_within [OF this] have "C - 1 / 10 ^ 10 \<le> cos x" "cos x \<le> C + 1 / 10 ^ 10"
    unfolding C_def by simp_all
  with c [of x, unfolded abs_le_iff]
  have cx: "C - 2 / 10 ^ 10 \<le> libm_cos h x" "libm_cos h x \<le> C + 2 / 10 ^ 10"
    by simp_all
  have C: "- 1 \<le> C" "C \<le> 1"
    unfolding C_def by simp_all
  with cx have "- 49 \<le> 48 * libm_cos h x" "48 * libm_cos h x \<le> 49"
    by simp_all
  from double_round_within [OF this]
  have "48 * libm_cos h x - 1 / 10 ^ 13 \<le> p" "p \<le> 48 * libm_cos h x + 1 / 10 ^ 13"
    unfolding p_def dmul_def by simp_all
  with cx have px: "48 * C - 1 / 10 ^ 8 \<le> p" "p \<le> 48 * C + 1 / 10 ^ 8"
    by simp_all
  with C have "- 785 \<le> p * 16" "p * 16 \<le> 785"
    by simp_all
  from double_round_within [OF this]
  have "p * 16 - 1 / 10 ^ 12 \<le> dmul p 16" "dmul p 16 \<le> p * 16 + 1 / 10 ^ 12"
    unfolding dmul_def by simp_all
  with px have "\<bar>dmul p 16 - 768 * C\<bar> \<le> 1 / 10 ^ 6"
    unfolding abs_le_iff by simp
  then show ?thesis
    unfolding tx_wave_def p_def x_def t_def C_def .
qed

text \<open>
  C1, as the code has it.  When the transmit section completes, the fill has walked the
  \<open>N\<close> elements of the buffer; at element \<open>k\<close> it stored \<open>0\<close> for I and, for Q, the
  \<^verbatim>\<open>double\<close> \<^verbatim>\<open>ampl * cos(freq * i) * 16\<close> of that iteration converted to \<^verbatim>\<open>short\<close> (the
  fraction dropped, so towards zero) and then masked with \<^verbatim>\<open>0xFFF0\<close>; the same two numbers
  are the row of \<^verbatim>\<open>input.csv\<close>.  The \<^verbatim>\<open>double\<close> is \<open>48 cos(314159.25 t\<^sub>k) 16\<close> in \<^verbatim>\<open>double\<close>
  arithmetic: 314159.25 is the \<^verbatim>\<open>float\<close> that \<open>2 \<pi> 50000\<close> becomes, \<open>t\<^sub>0\<close> is \<open>1/3000000\<close>
  rounded and \<open>t\<^sub>k\<^sub>+\<^sub>1\<close> is the rounded sum of \<open>t\<^sub>k\<close> and \<open>t\<^sub>0\<close>, the cosine is the library's, and
  each product is rounded.  The low four bits of every stored sample are clear, and the Q
  sample is the truncated product rounded down to a multiple of 16.  With a library cosine
  that is within \<open>2\<^sup>-\<^sup>5\<^sup>2\<close> of the cosine, the \<^verbatim>\<open>double\<close> is within \<open>10\<^sup>-\<^sup>6\<close> of the real number
  \<open>768 cos(314159.25 (k + 1) / 3000000)\<close> in the first 1024 elements.
\<close>

theorem C1_tx_fill:
  assumes "tx_section h sigs s0 = Some (Cont () s')"
  shows "(let F = iio_buffer_first h (nrefill s0) (txbuf s0) (tx0_i s0);
              E = iio_buffer_end h (nrefill s0) (txbuf s0);
              I = iio_buffer_step h (nrefill s0) (txbuf s0);
              N = n_elems F E I
          in filter is_store (trace s') = filter is_store (trace s0) @
               concat (map (\<lambda>k. [Store16 (F + int k * I) 0,
                                   Store16 (F + int k * I + 2) (q_sample (tx_wave h k))]) [0..<N])
           \<and> filter (is_row (finp s0)) (trace s') = filter (is_row (finp s0)) (trace s0) @
               map (\<lambda>k. Fprintf (finp s0) ''%d, %d\<newline>''
                           [AInt 0, AInt (sint (q_sample (tx_wave h k)))]) [0..<N]
           \<and> (\<forall>k<N. tx_wave h k
                      = double_round (double_round
                          (48 * libm_cos h (double_round (314159.25 * tx_time k))) * 16)
                  \<and> short_of_double (tx_wave h k) = Some (word_of_int (trunc (tx_wave h k)))
                  \<and> q_sample (tx_wave h k) = word_of_int (trunc (tx_wave h k)) AND 0xFFF0
                  \<and> q_sample (tx_wave h k) AND 0x000F = 0
                  \<and> sint (q_sample (tx_wave h k)) = 16 * (trunc (tx_wave h k) div 16))
           \<and> freq = 314159.25 \<and> ampl = 48
           \<and> tx_time 0 = double_round (1 / 3000000)
           \<and> (\<forall>k. tx_time (Suc k) = double_round (tx_time k + double_round (1 / 3000000)))
           \<and> ((\<forall>x. \<bar>libm_cos h x - cos x\<bar> \<le> 1 / 2 ^ 52) \<longrightarrow>
                (\<forall>k<N. k < 1024 \<longrightarrow>
                   \<bar>tx_wave h k - 768 * cos (314159.25 * ((real k + 1) / 3000000))\<bar>
                     \<le> 1 / 10 ^ 6)))"
proof -
  define F where "F = iio_buffer_first h (nrefill s0) (txbuf s0) (tx0_i s0)"
  define E where "E = iio_buffer_end h (nrefill s0) (txbuf s0)"
  define I where "I = iio_buffer_step h (nrefill s0) (txbuf s0)"
  note t = tx_section_Cont [OF assms, folded F_def E_def I_def]
  have ro: "filter (is_row (finp s0)) (trace s') = filter (is_row (finp s0)) (prog (trace s'))"
    and ro0: "filter (is_row (finp s0)) (prog (trace s0)) = filter (is_row (finp s0)) (trace s0)"
    by (simp_all add: filter_prog is_row_not_sig)
  note a = tx_section_stores [OF assms, folded F_def E_def I_def]
  have b: "filter (is_row (finp s0)) (trace s') = filter (is_row (finp s0)) (trace s0) @
               map (\<lambda>k. Fprintf (finp s0) ''%d, %d\<newline>''
                           [AInt 0, AInt (sint (q_sample (tx_wave h k)))]) [0..<n_elems F E I]"
    unfolding ro t(1) by (simp add: filter_concat_map tx_events_def ro0 concat_map_single)
  have c: "\<forall>k<n_elems F E I. tx_wave h k
                      = double_round (double_round
                          (48 * libm_cos h (double_round (314159.25 * tx_time k))) * 16)
                  \<and> short_of_double (tx_wave h k) = Some (word_of_int (trunc (tx_wave h k)))
                  \<and> q_sample (tx_wave h k) = word_of_int (trunc (tx_wave h k)) AND 0xFFF0
                  \<and> q_sample (tx_wave h k) AND 0x000F = 0
                  \<and> sint (q_sample (tx_wave h k)) = 16 * (trunc (tx_wave h k) div 16)"
  proof (intro allI impI)
    fix k assume "k < n_elems F E I"
    with t(2) have n: "short_of_double (tx_wave h k) \<noteq> None"
      by simp
    then have "short_of_double (tx_wave h k) = Some (word_of_int (trunc (tx_wave h k)))"
      by (simp add: short_of_double_def Let_def split: if_splits)
    moreover have "tx_wave h k
        = double_round (double_round (48 * libm_cos h (double_round (314159.25 * tx_time k))) * 16)"
      by (simp only: tx_wave_def dmul_def)
    moreover have "q_sample (tx_wave h k) = word_of_int (trunc (tx_wave h k)) AND 0xFFF0"
      by (simp only: q_sample_def)
    ultimately show "tx_wave h k
                      = double_round (double_round
                          (48 * libm_cos h (double_round (314159.25 * tx_time k))) * 16)
                  \<and> short_of_double (tx_wave h k) = Some (word_of_int (trunc (tx_wave h k)))
                  \<and> q_sample (tx_wave h k) = word_of_int (trunc (tx_wave h k)) AND 0xFFF0
                  \<and> q_sample (tx_wave h k) AND 0x000F = 0
                  \<and> sint (q_sample (tx_wave h k)) = 16 * (trunc (tx_wave h k) div 16)"
      using n q_sample_low_bits [of "tx_wave h k"] sint_q_sample [of "tx_wave h k"] by blast
  qed
  have d: "freq = 314159.25" "ampl = 48" "tx_time 0 = double_round (1 / 3000000)"
    "\<forall>k. tx_time (Suc k) = double_round (tx_time k + double_round (1 / 3000000))"
    by (simp_all add: tx_consts ddiv_def dadd_def)
  have e: "(\<forall>x. \<bar>libm_cos h x - cos x\<bar> \<le> 1 / 2 ^ 52) \<longrightarrow>
                (\<forall>k<n_elems F E I. k < 1024 \<longrightarrow>
                   \<bar>tx_wave h k - 768 * cos (314159.25 * ((real k + 1) / 3000000))\<bar>
                     \<le> 1 / 10 ^ 6)"
    using tx_wave_near [of h] by blast
  from a b c d e show ?thesis
    unfolding Let_def F_def E_def I_def by (intro conjI)
qed

lemma tx_section_ok:
  assumes "0 < iio_buffer_step h (nrefill s0) (txbuf s0)"
    and "finp s0 \<noteq> 0"
    and "\<forall>k. short_of_double (tx_wave h k) \<noteq> None"
    and "0 \<le> iio_buffer_push h (txbuf s0)"
  shows "\<exists>s'. tx_section h sigs s0 = Some (Cont () s')"
proof -
  let ?s = "(deliver sigs (emit (Printf ''* Starting IO streaming\<newline>'' []) s0))\<lparr>i_time := tx_time 0\<rparr>"
  let ?F = "iio_buffer_first h (nrefill s0) (txbuf s0) (tx0_i s0)"
  let ?E = "iio_buffer_end h (nrefill s0) (txbuf s0)"
  let ?I = "iio_buffer_step h (nrefill s0) (txbuf s0)"
  have it: "i_time ?s = tx_time 0"
    by simp
  have "finp ?s \<noteq> 0" "\<forall>j<n_elems ?F ?E ?I. short_of_double (tx_wave h (0 + j)) \<noteq> None"
    using assms(2,3) by simp_all
  from iter_tx_ok [OF this it, of sigs ?F ?I] obtain s1 where
    i: "iter (tx_body h sigs) (n_elems ?F ?E ?I) ?F ?I ?s = Cont () s1"
    by (rule exE)
  have w: "for_each_elem (tx_body h sigs) ?F ?E ?I ?s = Some (Cont () s1)"
    using for_each_elem_terminates [OF assms(1), of "tx_body h sigs" ?F ?E ?s] i by simp
  from iter_tx_Cont [OF i it, THEN conjunct1] obtain m' where
    e: "erase s1 = (erase ?s)\<lparr>i_time := tx_time (0 + n_elems ?F ?E ?I), mem := m',
           trace := prog (trace ?s) @
             concat (map (\<lambda>j. tx_events h (finp ?s) (0 + j) (?F + int j * ?I)) [0..<n_elems ?F ?E ?I])\<rparr>"
    by (rule exE)
  have tb: "txbuf s1 = txbuf s0"
    using arg_cong [OF e, of txbuf] by simp
  show ?thesis
    unfolding tx_section_def Let_def tx_time_0 using w assms(4) by (simp add: obnd_def tb)
qed

text \<open>With a cosine that stays within \<open>[-2, 2]\<close> every product fits a \<^verbatim>\<open>short\<close>.\<close>

lemma tx_wave_bounded:
  assumes "\<And>x. \<bar>libm_cos h x\<bar> \<le> 2"
  shows "\<bar>tx_wave h k\<bar> \<le> 1600"
proof -
  have "\<bar>48 * libm_cos h (dmul 314159.25 (tx_time k))\<bar> \<le> 96"
    using assms [of "dmul 314159.25 (tx_time k)"] by (simp add: abs_mult)
  from double_round_le [OF this]
  have "\<bar>dmul 48 (libm_cos h (dmul 314159.25 (tx_time k)))\<bar> \<le> 96 + 1 / 4"
    unfolding dmul_def by simp
  then have "\<bar>dmul 48 (libm_cos h (dmul 314159.25 (tx_time k))) * 16\<bar> \<le> 1540"
    by (simp add: abs_mult)
  from double_round_le [OF this] show ?thesis
    unfolding tx_wave_def dmul_def [of _ 16] by simp
qed

lemma tx_wave_fits:
  assumes "\<And>x. \<bar>libm_cos h x\<bar> \<le> 2"
  shows "short_of_double (tx_wave h k) \<noteq> None"
proof -
  have "\<bar>tx_wave h k\<bar> \<le> of_int 1600"
    using tx_wave_bounded [of h k, OF assms] by simp
  from trunc_abs [OF this] show ?thesis
    by (simp add: short_of_double_def Let_def abs_le_iff)
qed

lemma libm_cos_hw_ok: "\<bar>libm_cos hw_ok x\<bar> \<le> 2"
proof -
  have "\<bar>cos x\<bar> \<le> 1"
    by (rule abs_cos_le_one)
  from double_round_le [OF this] show ?thesis
    by (simp add: hw_ok_def)
qed

lemma libm_cos_hw_ok_near: "\<bar>libm_cos hw_ok x - cos x\<bar> \<le> 1 / 2 ^ 52"
proof -
  have "- 1 \<le> cos x" "cos x \<le> 1"
    by simp_all
  from double_round_within [OF this] have "\<bar>double_round (cos x) - cos x\<bar> \<le> 1 / 2 ^ 52"
    unfolding abs_le_iff by simp
  then show ?thesis
    by (simp add: hw_ok_def)
qed

lemma tx_section_hw_ok: "\<exists>s'. tx_section hw_ok no_sigs s_streaming = Some (Cont () s')"
proof -
  have "\<forall>k. short_of_double (tx_wave hw_ok k) \<noteq> None"
    using tx_wave_fits [of hw_ok, OF libm_cos_hw_ok] by simp
  then show ?thesis
    by (intro tx_section_ok) (simp_all add: hw_ok_def s_streaming_def init_def)
qed

text \<open>
  The first product, with the cosine exact up to its rounding: \<open>48 cos(0.1047...) 16\<close> is
  about 763.8, and the rounding errors of the five operations are far smaller than its
  distance to 752 and to 768.
\<close>

lemma tx_wave_0: "752 \<le> tx_wave hw_ok 0" "tx_wave hw_ok 0 < 768"
proof -
  define dt where "dt = ddiv 1 3000000"
  define x where "x = dmul 314159.25 dt"
  define c where "c = double_round (cos x)"
  define p where "p = dmul 48 c"
  have w: "tx_wave hw_ok 0 = dmul p 16"
    by (simp add: tx_wave_def p_def c_def x_def dt_def hw_ok_def)
  have dt: "33 / 10 ^ 8 \<le> dt" "dt \<le> 34 / 10 ^ 8"
    using double_round_between [of "1 / 3000000" "1 / 3000000" "1 / 3000000"]
    unfolding dt_def ddiv_def by simp_all
  then have "1036 / 10000 \<le> 314159.25 * dt" "314159.25 * dt \<le> 1069 / 10000"
    by simp_all
  from double_round_between [OF this]
  have x: "103 / 1000 \<le> x" "x \<le> 107 / 1000"
    unfolding x_def dmul_def by simp_all
  have x2: "(103 / 1000)\<^sup>2 \<le> x\<^sup>2" "x\<^sup>2 \<le> (107 / 1000)\<^sup>2"
    using x by (intro power_mono, simp_all)+
  have "x ^ 4 \<le> (107 / 1000) ^ 4"
    using x by (intro power_mono) simp_all
  moreover have "(107 / 1000 :: real) ^ 4 \<le> 1 / 5000"
    by (simp add: power_divide)
  ultimately have "x ^ 4 \<le> 1 / 5000"
    by (rule order_trans)
  with cos_upper [of x] cos_lower [of x] x x2
  have "9942 / 10000 \<le> cos x" "cos x \<le> 9948 / 10000"
    by (simp_all add: power2_eq_square)
  from double_round_between [OF this]
  have c: "9941 / 10000 \<le> c" "c \<le> 9949 / 10000"
    unfolding c_def by simp_all
  then have "4771 / 100 \<le> 48 * c" "48 * c \<le> 4776 / 100"
    by simp_all
  from double_round_between [OF this]
  have p: "477 / 10 \<le> p" "p \<le> 478 / 10"
    unfolding p_def dmul_def by simp_all
  then have "763 \<le> p * 16" "p * 16 \<le> 765"
    by simp_all
  from double_round_between [OF this]
  show "752 \<le> tx_wave hw_ok 0" "tx_wave hw_ok 0 < 768"
    unfolding w dmul_def by simp_all
qed

text \<open>
  The product of element 59: the argument of the cosine is \<open>314159.25 * 60 / 3000000\<close>,
  about \<open>3 * 10\<^sup>-\<^sup>7\<close> short of \<open>2 \<pi>\<close>, so the cosine is below 1 by about \<open>5 * 10\<^sup>-\<^sup>1\<^sup>4\<close>, which
  the roundings do not hide.
\<close>

lemma tx_wave_59: "752 \<le> tx_wave hw_ok 59" "tx_wave hw_ok 59 < 768"
proof -
  define x where "x = dmul 314159.25 (tx_time 59)"
  define d where "d = 2 * pi - x"
  define c where "c = double_round (cos x)"
  define p where "p = dmul 48 c"
  have w: "tx_wave hw_ok 59 = dmul p 16"
    by (simp add: tx_wave_def p_def c_def x_def hw_ok_def)
  from tx_time_near [of 59]
  have e: "60 / 3000000 - 119 / 2 ^ 63 \<le> tx_time 59" "tx_time 59 \<le> 60 / 3000000 + 119 / 2 ^ 63"
    by simp_all
  then have "- 7 \<le> 314159.25 * tx_time 59" "314159.25 * tx_time 59 \<le> 7"
    by simp_all
  from double_round_within [OF this] e
  have x: "6.283185 - 1 / 10 ^ 11 \<le> x" "x \<le> 6.283185 + 1 / 10 ^ 11"
    unfolding x_def dmul_def by simp_all
  have d: "18 / 10 ^ 8 \<le> d" "d \<le> 12 / 100"
    unfolding d_def using x pi_lower pi_upper by simp_all
  have cd: "cos x = cos d"
    unfolding d_def by simp
  have d2: "(18 / 10 ^ 8)\<^sup>2 \<le> d\<^sup>2" "d\<^sup>2 \<le> (12 / 100)\<^sup>2"
    using d by (intro power_mono, simp_all)+
  have "d ^ 4 = d\<^sup>2 * d\<^sup>2"
    by (simp add: power2_eq_square power4_eq_xxxx)
  also have "\<dots> \<le> d\<^sup>2 * (12 / 100)\<^sup>2"
    using d2 by (intro mult_left_mono) simp_all
  finally have d4: "d ^ 4 \<le> d\<^sup>2 * (144 / 10000)"
    by (simp add: power2_eq_square)
  have "0 < d"
    using d by simp
  from cos_upper [OF this] cos_lower [of d] d2 d4
  have "99 / 100 \<le> cos x" "cos x \<le> 1 - 16 / 10 ^ 15"
    unfolding cd by (simp_all add: power2_eq_square)
  moreover have "- 1 \<le> cos x" "cos x \<le> 1"
    by simp_all
  note double_round_within [OF this]
  ultimately have c: "98 / 100 \<le> c" "c \<le> 1 - 15 / 10 ^ 15"
    unfolding c_def by simp_all
  then have "- 48 \<le> 48 * c" "48 * c \<le> 48"
    by simp_all
  from double_round_within [OF this] c
  have p: "4701 / 100 \<le> p" "p \<le> 48 - 7 / 10 ^ 13"
    unfolding p_def dmul_def by simp_all
  then have "- 768 \<le> p * 16" "p * 16 \<le> 768"
    by simp_all
  from double_round_within [OF this] p
  show "752 \<le> tx_wave hw_ok 59" "tx_wave hw_ok 59 < 768"
    unfolding w dmul_def by simp_all
qed

theorem C1_tx_fill_witness:
  "\<exists>s'. tx_section hw_ok no_sigs s_streaming = Some (Cont () s')
     \<and> length (filter is_store (trace s')) = 2048
     \<and> q_sample (tx_wave hw_ok 0) AND 0x000F = 0
     \<and> sint (q_sample (tx_wave hw_ok 0)) = 16 * (trunc (tx_wave hw_ok 0) div 16)
     \<and> sint (q_sample (tx_wave hw_ok 0)) = 752
     \<and> sint (q_sample (tx_wave hw_ok 59)) = 16 * (trunc (tx_wave hw_ok 59) div 16)
     \<and> sint (q_sample (tx_wave hw_ok 59)) = 752
     \<and> (\<forall>x. \<bar>libm_cos hw_ok x - cos x\<bar> \<le> 1 / 2 ^ 52)
     \<and> \<bar>tx_wave hw_ok 59 - 768 * cos (314159.25 * ((real 59 + 1) / 3000000))\<bar> \<le> 1 / 10 ^ 6"
proof -
  from tx_section_hw_ok obtain s' where r: "tx_section hw_ok no_sigs s_streaming = Some (Cont () s')"
    by (rule exE)
  have n: "n_elems (iio_buffer_first hw_ok (nrefill s_streaming) (txbuf s_streaming) (tx0_i s_streaming))
             (iio_buffer_end hw_ok (nrefill s_streaming) (txbuf s_streaming))
             (iio_buffer_step hw_ok (nrefill s_streaming) (txbuf s_streaming)) = 1024"
    by (simp add: hw_ok_def s_streaming_def init_def n_elems_def)
  have e: "trace s_streaming = []"
    by (simp add: s_streaming_def init_def)
  note c = C1_tx_fill [OF r, unfolded Let_def n e]
  have l: "length (filter is_store (trace s')) = 2048"
    unfolding c [THEN conjunct1] by (simp add: length_concat comp_def sum_list_triv)
  have k: "(0 :: nat) < 1024" "(59 :: nat) < 1024"
    by simp_all
  from c k(1) have a: "q_sample (tx_wave hw_ok 0) AND 0x000F = 0
     \<and> sint (q_sample (tx_wave hw_ok 0)) = 16 * (trunc (tx_wave hw_ok 0) div 16)"
    by blast
  from c k(2) have b: "sint (q_sample (tx_wave hw_ok 59)) = 16 * (trunc (tx_wave hw_ok 59) div 16)"
    by blast
  have h: "\<forall>x. \<bar>libm_cos hw_ok x - cos x\<bar> \<le> 1 / 2 ^ 52"
    using libm_cos_hw_ok_near by blast
  with c k(2)
  have d: "\<bar>tx_wave hw_ok 59 - 768 * cos (314159.25 * ((real 59 + 1) / 3000000))\<bar> \<le> 1 / 10 ^ 6"
    by blast
  from r l a b h d q_sample_752 [OF tx_wave_0] q_sample_752 [OF tx_wave_59] show ?thesis
    by blast
qed

text \<open>
  The stored Q sample is not \<open>round(48 cos(2 \<pi> 50000 t\<^sub>k)) 16\<close>.  In the first element the
  product \<open>48 cos(...) 16\<close> is about 763.8: the code stores 752, the formula gives 768.  In
  element 59 the formula has the cosine of \<open>2 \<pi>\<close> and gives 768 again; the code, whose
  \<^verbatim>\<open>float freq\<close> is a little less than \<open>2 \<pi> 50000\<close>, has a product just below 768 and stores
  752.
\<close>

theorem C1_rounding_counterexample:
  "\<exists>s'. tx_section hw_ok no_sigs s_streaming = Some (Cont () s')
     \<and> take 2 (filter is_store (trace s')) = [Store16 6750208 0, Store16 6750210 752]
     \<and> round (48 * cos (2 * pi * 50000 * (0 / 3000000 + 1 / 3000000))) * 16 = (768 :: int)
     \<and> filter is_store (trace s') ! 119 = Store16 6750446 752
     \<and> round (48 * cos (2 * pi * 50000 * (59 / 3000000 + 1 / 3000000))) * 16 = (768 :: int)"
proof -
  from tx_section_hw_ok obtain s' where r: "tx_section hw_ok no_sigs s_streaming = Some (Cont () s')"
    by (rule exE)
  have g: "iio_buffer_first hw_ok (nrefill s_streaming) (txbuf s_streaming) (tx0_i s_streaming) = 6750208"
    "iio_buffer_end hw_ok (nrefill s_streaming) (txbuf s_streaming) = 6754304"
    "iio_buffer_step hw_ok (nrefill s_streaming) (txbuf s_streaming) = 4"
    "n_elems 6750208 6754304 4 = Suc 1023"
    "filter is_store (trace s_streaming) = []"
    by (simp_all add: hw_ok_def s_streaming_def init_def n_elems_def)
  have q: "q_sample (tx_wave hw_ok 0) = 752" "q_sample (tx_wave hw_ok 59) = 752"
  proof -
    have "q_sample (tx_wave hw_ok 0) = word_of_int (sint (q_sample (tx_wave hw_ok 0)))"
      by simp
    also have "\<dots> = 752"
      unfolding q_sample_752 [OF tx_wave_0] by simp
    finally show "q_sample (tx_wave hw_ok 0) = 752" .
    have "q_sample (tx_wave hw_ok 59) = word_of_int (sint (q_sample (tx_wave hw_ok 59)))"
      by simp
    also have "\<dots> = 752"
      unfolding q_sample_752 [OF tx_wave_59] by simp
    finally show "q_sample (tx_wave hw_ok 59) = 752" .
  qed
  note st = tx_section_stores [OF r, unfolded g]
  have s: "take 2 (filter is_store (trace s')) = [Store16 6750208 0, Store16 6750210 752]"
    unfolding st concat_map_Suc_front by (simp add: q)
  have "filter is_store (trace s') ! (2 * 59 + 1) = Store16 (6750208 + int 59 * 4 + 2) (q_sample (tx_wave hw_ok 59))"
    unfolding st by (simp only: append_Nil) (rule concat_pairs_nth, simp)
  then have s59: "filter is_store (trace s') ! 119 = Store16 6750446 752"
    by (simp add: q)
  have a: "2 * pi * 50000 * (0 / 3000000 + 1 / 3000000) = pi / 30"
    "2 * pi * 50000 * (59 / 3000000 + 1 / 3000000) = 2 * pi"
    by simp_all
  have "47.5 \<le> 48 * cos (pi / 30)" "48 * cos (pi / 30) < 48.5"
    using cos_pi_30_bounds by simp_all
  then have "round (48 * cos (pi / 30)) = 48"
    unfolding round_def by (simp add: floor_eq_iff)
  with r s s59 show ?thesis
    unfolding a by simp
qed

subsection \<open>Interrupts\<close>

lemma final_erase_res [simp]: "final (erase_res r) = erase (final r)"
  by (cases r) (simp_all add: final_def)

lemma file_rows_erase: "file_rows (erase_opt r) = file_rows r"
proof -
  have "\<And>e. is_file_row e \<Longrightarrow> \<not> is_sig_msg e"
    by (case_tac e) simp_all
  then show ?thesis
    by (cases r) (simp_all add: file_rows_def filter_prog)
qed

lemma refill_count_erase: "refill_count (erase_opt r) = refill_count r"
proof -
  have "\<And>e. is_refill e \<Longrightarrow> \<not> is_sig_msg e"
    by (case_tac e) simp_all
  then show ?thesis
    by (cases r) (simp_all add: refill_count_def filter_prog)
qed

lemma erase_handle_sig: "erase (handle_sig sig s) = erase s"
  by (simp add: handle_sig_def erase_def emit_def prog_Cons)

text \<open>
  C5.  The handler changes nothing but \<^verbatim>\<open>stop\<close> and the standard output.  Take one
  library and device, one argument vector, and any two schedules of signals: the two runs
  of \<^verbatim>\<open>main\<close> end in the same state with the same trace, up to \<^verbatim>\<open>stop\<close> and the
  handler's own messages.  In particular both write the same rows to \<^verbatim>\<open>input.csv\<close> and
  \<^verbatim>\<open>output.csv\<close>, both make the same number of refills, and one returns when the other
  does: a signal does not shorten a run.
\<close>

theorem C5_interrupt_noninterference:
  "erase (handle_sig sig s) = erase s
   \<and> erase_opt (main h sigs argv) = erase_opt (main h sigs' argv)
   \<and> file_rows (main h sigs argv) = file_rows (main h sigs' argv)
   \<and> refill_count (main h sigs argv) = refill_count (main h sigs' argv)
   \<and> (main h sigs argv = None) = (main h sigs' argv = None)"
proof -
  note m = main_cong [of h sigs argv sigs']
  have "file_rows (main h sigs argv) = file_rows (main h sigs' argv)"
    using arg_cong [OF m, of file_rows] by (simp only: file_rows_erase)
  moreover have "refill_count (main h sigs argv) = refill_count (main h sigs' argv)"
    using arg_cong [OF m, of refill_count] by (simp only: refill_count_erase)
  moreover have "(main h sigs argv = None) = (main h sigs' argv = None)"
    using m by (cases "main h sigs argv"; cases "main h sigs' argv") simp_all
  ultimately show ?thesis
    using m erase_handle_sig by blast
qed

subsection \<open>The receive phases\<close>

lemma rx_steps_0: "rx_steps h lg 0 s s"
  by (simp add: rx_steps_def rx_total_def)

lemma rx_steps_Suc:
  assumes "rx_steps h lg 1 s s1" "rx_steps h lg m s1 s'"
  shows "rx_steps h lg (Suc m) s s'"
proof -
  have e: "\<And>k. rx_elems h k s1 = rx_elems h k s"
    using assms(1) by (simp add: rx_steps_def rx_elems_def)
  have n: "nrefill s1 = Suc (nrefill s)" "foutp s1 = foutp s"
    using assms(1) by (simp_all add: rx_steps_def)
  have "rx_total h (Suc m) s
      = rx_elems h (nrefill s + Suc 0) s + (\<Sum>j<m. rx_elems h (nrefill s + Suc (Suc j)) s)"
    unfolding rx_total_def by (rule sum.lessThan_Suc_shift)
  also have "\<dots> = rx_total h 1 s + rx_total h m s1"
    unfolding rx_total_def e n by simp
  finally have t: "rx_total h (Suc m) s = rx_total h 1 s + rx_total h m s1" .
  show ?thesis
    using assms unfolding rx_steps_def t n
    by (simp split: if_splits)
qed

lemma refill_Cont:
  assumes "refill h s = Cont x s1"
  shows "s1 = s\<lparr>mem := rx_dma h (nrefill s) (mem s), nrefill := Suc (nrefill s),
                  trace := trace s @ [Iio_buffer_refill (rxbuf s)]\<rparr>"
    and "0 \<le> iio_buffer_refill h (nrefill s) (rxbuf s)"
  using assms by (auto simp add: refill_def Let_def shutdown_eq emit_def split: if_splits)

lemma rx_iteration_Cont:
  assumes "rx_iteration h sigs body s = Some (Cont () s')"
  defines "s1 \<equiv> (deliver sigs s)\<lparr>mem := rx_dma h (nrefill s) (mem s), nrefill := Suc (nrefill s),
                  trace := trace (deliver sigs s) @ [Iio_buffer_refill (rxbuf s)]\<rparr>"
  shows "iter body (rx_elems h (Suc (nrefill s)) s)
           (iio_buffer_first h (Suc (nrefill s)) (rxbuf s) (rx0_i s))
           (iio_buffer_step h (Suc (nrefill s)) (rxbuf s)) s1 = Cont () s'"
    and "0 \<le> iio_buffer_refill h (nrefill s) (rxbuf s)"
proof -
  from assms(1) obtain x s2 where
    r: "Some (refill h (deliver sigs s)) = Some (Cont x s2)"
    and w: "(let p_inc = iio_buffer_step h (nrefill s2) (rxbuf s2);
                 p_end = iio_buffer_end h (nrefill s2) (rxbuf s2)
             in for_each_elem body (iio_buffer_first h (nrefill s2) (rxbuf s2) (rx0_i s2)) p_end p_inc s2)
            = Some (Cont () s')"
    unfolding rx_iteration_def by (rule obnd_Cont)
  from r have r': "refill h (deliver sigs s) = Cont x s2"
    by simp
  from refill_Cont [OF r'] have s2: "s2 = s1" and ok: "0 \<le> iio_buffer_refill h (nrefill s) (rxbuf s)"
    by (simp_all add: s1_def)
  have g: "nrefill s1 = Suc (nrefill s)" "rxbuf s1 = rxbuf s" "rx0_i s1 = rx0_i s"
    by (simp_all add: s1_def)
  from w have "for_each_elem body (iio_buffer_first h (Suc (nrefill s)) (rxbuf s) (rx0_i s))
      (iio_buffer_end h (Suc (nrefill s)) (rxbuf s)) (iio_buffer_step h (Suc (nrefill s)) (rxbuf s)) s1
      = Some (Cont () s')"
    unfolding s2 Let_def g .
  from for_each_elem_Cont [OF this]
  show "iter body (rx_elems h (Suc (nrefill s)) s)
           (iio_buffer_first h (Suc (nrefill s)) (rxbuf s) (rx0_i s))
           (iio_buffer_step h (Suc (nrefill s)) (rxbuf s)) s1 = Cont () s'"
    by (simp add: rx_elems_def)
  from ok show "0 \<le> iio_buffer_refill h (nrefill s) (rxbuf s)" .
qed

lemma filter_trace_erase:
  assumes "\<And>e. P e \<Longrightarrow> \<not> is_sig_msg e"
  shows "filter P (trace s) = filter P (trace (erase s))"
  using filter_prog [of P "trace s", OF assms] by simp

lemma not_sig_refill: "is_refill e \<Longrightarrow> \<not> is_sig_msg e"
  by (cases e) simp_all

lemma not_sig_file_row: "is_file_row e \<Longrightarrow> \<not> is_sig_msg e"
  by (cases e) simp_all

lemma not_sig_report: "is_report e \<Longrightarrow> \<not> is_sig_msg e"
  by (cases e) (auto simp add: SIG_FMT_def DUMPED_FMT_def RECEIVED_FMT_def)

lemma rx_steps_erase: "rx_steps h lg m (erase s) (erase s') = rx_steps h lg m s s'"
  unfolding rx_steps_def rx_total_def rx_elems_def
  by (simp add: filter_prog not_sig_refill not_sig_file_row not_sig_report is_row_not_sig)

lemma length_filter_concat_map:
  "length (filter P (concat (map g xs))) = (\<Sum>x\<leftarrow>xs. length (filter P (g x)))"
  by (induction xs) simp_all

lemma iter_warmup_Cont:
  assumes "iter (warmup_body sigs) n p inc s = Cont () s'"
  shows "erase s' = (erase s)\<lparr>nrx := nrx s + of_nat n\<rparr>"
proof -
  from iter_warmup [of sigs n p inc s] obtain s'' where
    "iter (warmup_body sigs) n p inc s = Cont () s''" "erase s'' = (erase s)\<lparr>nrx := nrx s + of_nat n\<rparr>"
    by (elim exE conjE)
  with assms show ?thesis
    by simp
qed

lemma rx_iteration_warmup_steps:
  assumes "rx_iteration h sigs (warmup_body sigs) s = Some (Cont () s')"
  shows "rx_steps h False 1 s s'"
proof -
  let ?s1 = "(deliver sigs s)\<lparr>mem := rx_dma h (nrefill s) (mem s), nrefill := Suc (nrefill s),
                  trace := trace (deliver sigs s) @ [Iio_buffer_refill (rxbuf s)]\<rparr>"
  let ?N = "rx_elems h (Suc (nrefill s)) s"
  note e = iter_warmup_Cont [OF rx_iteration_Cont(1) [OF assms]]
  have "rx_steps h False 1 (erase s) (erase s')"
    unfolding e by (simp add: rx_steps_def rx_total_def rx_elems_def deliver_eq prog_Cons)
  then show ?thesis
    by (simp only: rx_steps_erase)
qed

lemma rx_iteration_capture_steps:
  assumes "rx_iteration h sigs (capture_body sigs) s = Some (Cont () s')"
  shows "rx_steps h True 1 s s'"
proof -
  let ?s1 = "(deliver sigs s)\<lparr>mem := rx_dma h (nrefill s) (mem s), nrefill := Suc (nrefill s),
                  trace := trace (deliver sigs s) @ [Iio_buffer_refill (rxbuf s)]\<rparr>"
  let ?N = "rx_elems h (Suc (nrefill s)) s"
  note e = iter_capture_Cont [OF rx_iteration_Cont(1) [OF assms], THEN conjunct1]
  have "rx_steps h True 1 (erase s) (erase s')"
    unfolding e
    by (simp add: rx_steps_def rx_total_def rx_elems_def deliver_eq prog_Cons
        length_filter_concat_map capture_events_def sum_list_triv DUMPED_FMT_def RECEIVED_FMT_def
        ROW_FMT_def filter_concat_map)
  then show ?thesis
    by (simp only: rx_steps_erase)
qed

lemma rx_for_steps:
  assumes step: "\<And>s s'. rx_iteration h sigs body s = Some (Cont () s') \<Longrightarrow> rx_steps h lg 1 s s'"
    and run: "rx_for h sigs body i n s = Some (Cont () s')"
  shows "rx_steps h lg (nat (n - i)) s s'"
  using run
proof (induction "nat (n - i)" arbitrary: i s)
  case 0
  then have "s' = s"
    by simp
  with 0 show ?case
    by (simp add: rx_steps_0)
next
  case (Suc k)
  then have lt: "i < n" and k: "k = nat (n - (i + 1))"
    by simp_all
  from Suc.prems lt obtain s1 where
    i: "rx_iteration h sigs body s = Some (Cont () s1)"
    and r: "rx_for h sigs body (i + 1) n s1 = Some (Cont () s')"
    by (auto split: option.splits res.splits)
  have "Suc (nat (n - (i + 1))) = nat (n - i)"
    using lt by simp
  with rx_steps_Suc [OF step [OF i] Suc.hyps(1) [OF k r]] show ?case
    by (simp only:)
qed

lemma rx_iteration_ok:
  assumes "0 \<le> iio_buffer_refill h (nrefill s) (rxbuf s)"
    and "0 < iio_buffer_step h (Suc (nrefill s)) (rxbuf s)"
    and "\<And>n p inc s. foutp s \<noteq> 0 \<Longrightarrow> \<exists>s'. iter body n p inc s = Cont () s'"
    and "foutp s \<noteq> 0"
  shows "\<exists>s'. rx_iteration h sigs body s = Some (Cont () s')"
proof -
  let ?s1 = "(deliver sigs s)\<lparr>mem := rx_dma h (nrefill s) (mem s), nrefill := Suc (nrefill s),
                  trace := trace (deliver sigs s) @ [Iio_buffer_refill (rxbuf s)]\<rparr>"
  have r: "refill h (deliver sigs s) = Cont () ?s1"
    using assms(1) by (simp add: refill_def Let_def emit_def)
  have "foutp ?s1 \<noteq> 0"
    using assms(4) by simp
  from assms(3) [OF this] obtain s' where
    "iter body (rx_elems h (Suc (nrefill s)) s)
           (iio_buffer_first h (Suc (nrefill s)) (rxbuf s) (rx0_i s))
           (iio_buffer_step h (Suc (nrefill s)) (rxbuf s)) ?s1 = Cont () s'"
    by (rule exE)
  with for_each_elem_terminates [OF assms(2), of body
      "iio_buffer_first h (Suc (nrefill s)) (rxbuf s) (rx0_i s)"
      "iio_buffer_end h (Suc (nrefill s)) (rxbuf s)" ?s1]
  have "for_each_elem body (iio_buffer_first h (Suc (nrefill s)) (rxbuf s) (rx0_i s))
      (iio_buffer_end h (Suc (nrefill s)) (rxbuf s)) (iio_buffer_step h (Suc (nrefill s)) (rxbuf s)) ?s1
      = Some (Cont () s')"
    by (simp add: rx_elems_def)
  then have "rx_iteration h sigs body s = Some (Cont () s')"
    unfolding rx_iteration_def r by (simp add: obnd_def Let_def)
  then show ?thesis ..
qed

lemma rx_for_ok:
  assumes refills: "\<And>k. 0 \<le> iio_buffer_refill h k (rxbuf s)"
    and steps: "\<And>k. 0 < iio_buffer_step h k (rxbuf s)"
    and body: "\<And>n p inc s. foutp s \<noteq> 0 \<Longrightarrow> \<exists>s'. iter body n p inc s = Cont () s'"
    and step: "\<And>s s'. rx_iteration h sigs body s = Some (Cont () s') \<Longrightarrow> rx_steps h lg 1 s s'"
    and f: "foutp s \<noteq> 0"
  shows "\<exists>s'. rx_for h sigs body i n s = Some (Cont () s')"
  using refills steps f
proof (induction "nat (n - i)" arbitrary: i s)
  case 0
  then show ?case
    by simp
next
  case (Suc k)
  then have lt: "i < n" and k: "k = nat (n - (i + 1))"
    by simp_all
  from rx_iteration_ok [OF Suc.prems(1) Suc.prems(2) body Suc.prems(3)] obtain s1 where
    i: "rx_iteration h sigs body s = Some (Cont () s1)"
    by blast
  from step [OF i] have p: "rxbuf s1 = rxbuf s" "foutp s1 = foutp s"
    by (simp_all add: rx_steps_def)
  from Suc.hyps(1) [OF k, of s1] Suc.prems p obtain s' where
    "rx_for h sigs body (i + 1) n s1 = Some (Cont () s')"
    by auto
  with i lt show ?case
    by simp
qed

lemma iter_warmup_ok: "\<exists>s'. iter (warmup_body sigs) n p inc s = Cont () s'"
  using iter_warmup [of sigs n p inc s] by blast

lemma rx_section_Cont:
  assumes "rx_section h sigs s = Some (Cont () s')"
  obtains s1 s2 where
    "rx_warmup h sigs s = Some (Cont () s1)"
    "rx_steps h False 2 s s1"
    "rx_capture h sigs ((emit (Printf DUMPED_FMT [ASize (nrx s1)]) s1)\<lparr>nrx := 0\<rparr>) = Some (Cont () s2)"
    "rx_steps h True 40 ((emit (Printf DUMPED_FMT [ASize (nrx s1)]) s1)\<lparr>nrx := 0\<rparr>) s2"
    "s' = deliver sigs (emit (Printf RECEIVED_FMT [ASize (nrx s2)]) s2)"
proof -
  from assms obtain x s1 where
    w: "rx_warmup h sigs s = Some (Cont x s1)"
    and r: "(let s = emit (Printf DUMPED_FMT [ASize (nrx s1)]) s1; s = s\<lparr>nrx := 0\<rparr>
             in obnd (rx_capture h sigs s) (\<lambda>_ s.
                  Some (Cont () (deliver sigs (emit (Printf RECEIVED_FMT [ASize (nrx s)]) s)))))
            = Some (Cont () s')"
    unfolding rx_section_def by (rule obnd_Cont)
  let ?s1' = "(emit (Printf DUMPED_FMT [ASize (nrx s1)]) s1)\<lparr>nrx := 0\<rparr>"
  from r obtain y s2 where
    c: "rx_capture h sigs ?s1' = Some (Cont y s2)"
    and f: "Some (Cont () (deliver sigs (emit (Printf RECEIVED_FMT [ASize (nrx s2)]) s2))) = Some (Cont () s')"
    unfolding Let_def by (rule obnd_Cont)
  have a: "rx_steps h False 2 s s1"
    using rx_for_steps [of h sigs "warmup_body sigs" False 0 2 s s1, OF rx_iteration_warmup_steps]
      w by (simp add: rx_warmup_def)
  have b: "rx_steps h True 40 ?s1' s2"
    using rx_for_steps [of h sigs "capture_body sigs" True 0 40 ?s1' s2, OF rx_iteration_capture_steps]
      c by (simp add: rx_capture_def)
  from f have "s' = deliver sigs (emit (Printf RECEIVED_FMT [ASize (nrx s2)]) s2)"
    by simp
  with w c a b that show thesis
    by simp
qed

lemma rx_section_ok:
  assumes refills: "\<And>k. 0 \<le> iio_buffer_refill h k (rxbuf s)"
    and steps: "\<And>k. 0 < iio_buffer_step h k (rxbuf s)"
    and f: "foutp s \<noteq> 0"
  shows "\<exists>s'. rx_section h sigs s = Some (Cont () s')"
proof -
  have "\<exists>s1. rx_for h sigs (warmup_body sigs) 0 2 s = Some (Cont () s1)"
  proof (rule rx_for_ok [where lg = False])
    show "\<And>k. 0 \<le> iio_buffer_refill h k (rxbuf s)" by (rule refills)
    show "\<And>k. 0 < iio_buffer_step h k (rxbuf s)" by (rule steps)
    show "\<And>n p inc s. foutp s \<noteq> 0 \<Longrightarrow> \<exists>s'. iter (warmup_body sigs) n p inc s = Cont () s'"
      by (rule iter_warmup_ok)
    show "\<And>s s'. rx_iteration h sigs (warmup_body sigs) s = Some (Cont () s') \<Longrightarrow> rx_steps h False 1 s s'"
      by (rule rx_iteration_warmup_steps)
    show "foutp s \<noteq> 0" by (rule f)
  qed
  then obtain s1 where w: "rx_warmup h sigs s = Some (Cont () s1)"
    unfolding rx_warmup_def by (elim exE)
  have "rx_steps h False 2 s s1"
    using rx_for_steps [of h sigs "warmup_body sigs" False 0 2 s s1, OF rx_iteration_warmup_steps]
      w by (simp add: rx_warmup_def)
  then have p: "rxbuf s1 = rxbuf s" "foutp s1 = foutp s"
    by (simp_all add: rx_steps_def)
  let ?s1' = "(emit (Printf DUMPED_FMT [ASize (nrx s1)]) s1)\<lparr>nrx := 0\<rparr>"
  have q: "rxbuf ?s1' = rxbuf s" "foutp ?s1' \<noteq> 0"
    using p f by simp_all
  have "\<exists>s2. rx_for h sigs (capture_body sigs) 0 40 ?s1' = Some (Cont () s2)"
  proof (rule rx_for_ok [where lg = True])
    show "\<And>k. 0 \<le> iio_buffer_refill h k (rxbuf ?s1')" unfolding q(1) by (rule refills)
    show "\<And>k. 0 < iio_buffer_step h k (rxbuf ?s1')" unfolding q(1) by (rule steps)
    show "\<And>n p inc s. foutp s \<noteq> 0 \<Longrightarrow> \<exists>s'. iter (capture_body sigs) n p inc s = Cont () s'"
      by (rule iter_capture_ok)
    show "\<And>s s'. rx_iteration h sigs (capture_body sigs) s = Some (Cont () s') \<Longrightarrow> rx_steps h True 1 s s'"
      by (rule rx_iteration_capture_steps)
    show "foutp ?s1' \<noteq> 0" by (rule q(2))
  qed
  then obtain s2 where c: "rx_capture h sigs ?s1' = Some (Cont () s2)"
    unfolding rx_capture_def by (elim exE)
  from w c show ?thesis
    by (simp add: rx_section_def obnd_def Let_def)
qed

lemma rx_section_counts:
  assumes "rx_section h sigs s = Some (Cont () s')"
  obtains s1 where
    "rx_warmup h sigs s = Some (Cont () s1)"
    "rx_steps h False 2 s s1"
    "length (filter is_refill (trace s')) = length (filter is_refill (trace s1)) + 40"
    "length (filter is_file_row (trace s')) = length (filter is_file_row (trace s))
       + (\<Sum>j<40. rx_elems h (nrefill s + 2 + Suc j) s)"
    "length (filter (is_row (foutp s)) (trace s')) = length (filter (is_row (foutp s)) (trace s))
       + (\<Sum>j<40. rx_elems h (nrefill s + 2 + Suc j) s)"
    "filter is_report (trace s') = filter is_report (trace s) @
       [Printf DUMPED_FMT [ASize (nrx s + of_nat (\<Sum>j<2. rx_elems h (nrefill s + Suc j) s))],
        Printf RECEIVED_FMT [ASize (of_nat (\<Sum>j<40. rx_elems h (nrefill s + 2 + Suc j) s))]]"
    "nrx s' = of_nat (\<Sum>j<40. rx_elems h (nrefill s + 2 + Suc j) s)"
proof -
  from assms obtain s1 s2 where
    w: "rx_warmup h sigs s = Some (Cont () s1)"
    and a: "rx_steps h False 2 s s1"
    and b: "rx_steps h True 40 ((emit (Printf DUMPED_FMT [ASize (nrx s1)]) s1)\<lparr>nrx := 0\<rparr>) s2"
    and s': "s' = deliver sigs (emit (Printf RECEIVED_FMT [ASize (nrx s2)]) s2)"
    by (rule rx_section_Cont)
  let ?s1' = "(emit (Printf DUMPED_FMT [ASize (nrx s1)]) s1)\<lparr>nrx := 0\<rparr>"
  from a have p: "rxbuf s1 = rxbuf s" "rx0_i s1 = rx0_i s" "foutp s1 = foutp s"
    "nrefill s1 = nrefill s + 2" "nrx s1 = nrx s + of_nat (rx_total h 2 s)"
    "length (filter is_file_row (trace s1)) = length (filter is_file_row (trace s))"
    "length (filter (is_row (foutp s)) (trace s1)) = length (filter (is_row (foutp s)) (trace s))"
    "filter is_report (trace s1) = filter is_report (trace s)"
    by (simp_all add: rx_steps_def)
  have t: "rx_total h 40 ((emit (Printf DUMPED_FMT x) s1)\<lparr>nrx := 0\<rparr>)
      = (\<Sum>j<40. rx_elems h (nrefill s + 2 + Suc j) s)" for x
    using p(1,2,4) by (simp add: rx_total_def rx_elems_def)
  have t2: "rx_total h 2 s = (\<Sum>j<2. rx_elems h (nrefill s + Suc j) s)"
    by (simp add: rx_total_def)
  from b have q: "nrx s2 = of_nat (rx_total h 40 ?s1')"
    "length (filter is_refill (trace s2)) = length (filter is_refill (trace s1)) + 40"
    "length (filter is_file_row (trace s2)) = length (filter is_file_row (trace s1)) + rx_total h 40 ?s1'"
    "length (filter (is_row (foutp s)) (trace s2))
       = length (filter (is_row (foutp s)) (trace s1)) + rx_total h 40 ?s1'"
    "filter is_report (trace s2) = filter is_report (trace s1) @ [Printf DUMPED_FMT [ASize (nrx s1)]]"
    using p(3) by (simp_all add: rx_steps_def)
  have sg: "filter is_refill (sig_events sigs n) = []" "filter is_file_row (sig_events sigs n) = []"
    "filter (is_row f) (sig_events sigs n) = []" "filter is_report (sig_events sigs n) = []" for n f
    by (simp_all add: sig_events_def SIG_FMT_def DUMPED_FMT_def RECEIVED_FMT_def split: option.split)
  show thesis
  proof (rule that [OF w a])
    show "length (filter is_refill (trace s')) = length (filter is_refill (trace s1)) + 40"
      unfolding s' by (simp add: deliver_eq sg q)
    show "length (filter is_file_row (trace s')) = length (filter is_file_row (trace s))
       + (\<Sum>j<40. rx_elems h (nrefill s + 2 + Suc j) s)"
      unfolding s' by (simp add: deliver_eq sg q p t)
    show "length (filter (is_row (foutp s)) (trace s')) = length (filter (is_row (foutp s)) (trace s))
       + (\<Sum>j<40. rx_elems h (nrefill s + 2 + Suc j) s)"
      unfolding s' by (simp add: deliver_eq sg q p t)
    show "filter is_report (trace s') = filter is_report (trace s) @
       [Printf DUMPED_FMT [ASize (nrx s + of_nat (\<Sum>j<2. rx_elems h (nrefill s + Suc j) s))],
        Printf RECEIVED_FMT [ASize (of_nat (\<Sum>j<40. rx_elems h (nrefill s + 2 + Suc j) s))]]"
      unfolding s' by (simp add: deliver_eq sg q p t t2)
    show "nrx s' = of_nat (\<Sum>j<40. rx_elems h (nrefill s + 2 + Suc j) s)"
      unfolding s' by (simp add: q t)
  qed
qed

text \<open>
  C2.  When the receive section completes, the warm-up phase has made exactly 2 refills and
  written no row to any file, and the capture phase has then made exactly 40 refills and
  written one row to \<^verbatim>\<open>output.csv\<close> for every element of every refilled buffer, whatever
  the sizes the buffer reports.  If each of the 40 refills has \<open>m\<close> elements, \<open>40 m\<close> rows
  are written.
\<close>

theorem C2_receive_phase_counts:
  assumes "rx_section h sigs s = Some (Cont () s')"
  shows "\<exists>s1. rx_warmup h sigs s = Some (Cont () s1)
           \<and> length (filter is_refill (trace s1)) = length (filter is_refill (trace s)) + 2
           \<and> length (filter is_file_row (trace s1)) = length (filter is_file_row (trace s))
           \<and> length (filter is_refill (trace s')) = length (filter is_refill (trace s1)) + 40
           \<and> length (filter (is_row (foutp s)) (trace s'))
                = length (filter (is_row (foutp s)) (trace s))
                  + (\<Sum>j<40. rx_elems h (nrefill s + 2 + Suc j) s)
           \<and> length (filter is_file_row (trace s'))
                = length (filter is_file_row (trace s))
                  + (\<Sum>j<40. rx_elems h (nrefill s + 2 + Suc j) s)
           \<and> ((\<forall>j<40. rx_elems h (nrefill s + 2 + Suc j) s = m) \<longrightarrow>
                length (filter (is_row (foutp s)) (trace s'))
                  = length (filter (is_row (foutp s)) (trace s)) + 40 * m)"
proof -
  from assms obtain s1 where
    c: "rx_warmup h sigs s = Some (Cont () s1)"
    "rx_steps h False 2 s s1"
    "length (filter is_refill (trace s')) = length (filter is_refill (trace s1)) + 40"
    "length (filter is_file_row (trace s')) = length (filter is_file_row (trace s))
       + (\<Sum>j<40. rx_elems h (nrefill s + 2 + Suc j) s)"
    "length (filter (is_row (foutp s)) (trace s')) = length (filter (is_row (foutp s)) (trace s))
       + (\<Sum>j<40. rx_elems h (nrefill s + 2 + Suc j) s)"
    by (rule rx_section_counts)
  from c(2) have w: "length (filter is_refill (trace s1)) = length (filter is_refill (trace s)) + 2"
    "length (filter is_file_row (trace s1)) = length (filter is_file_row (trace s))"
    by (simp_all add: rx_steps_def)
  have "(\<forall>j<40. rx_elems h (nrefill s + 2 + Suc j) s = m) \<longrightarrow>
          (\<Sum>j<40. rx_elems h (nrefill s + 2 + Suc j) s) = 40 * m"
    by (simp del: sum.lessThan_Suc add_2_eq_Suc add_2_eq_Suc')
  with c w show ?thesis
    by (intro exI [of _ s1]) (simp del: sum.lessThan_Suc)
qed

text \<open>
  C8, as the code has it.  The receive section prints the counter twice.  The first line,
  after the warm-up phase, carries the counter with the elements of the 2 warm-up refills
  added.  The counter is then reset: the second line, after the capture phase, carries the
  number of elements of the 40 capture refills alone.  After the second line the counter is
  left as it is.
\<close>

theorem C8_sample_counter_reports:
  assumes "rx_section h sigs s = Some (Cont () s')"
  shows "filter is_report (trace s') = filter is_report (trace s) @
           [Printf DUMPED_FMT [ASize (nrx s + of_nat (\<Sum>j<2. rx_elems h (nrefill s + Suc j) s))],
            Printf RECEIVED_FMT [ASize (of_nat (\<Sum>j<40. rx_elems h (nrefill s + 2 + Suc j) s))]]
         \<and> nrx s' = of_nat (\<Sum>j<40. rx_elems h (nrefill s + 2 + Suc j) s)"
  using assms by (rule rx_section_counts) (simp del: sum.lessThan_Suc)

lemma rx_elems_hw_ok: "rx_elems hw_ok k s_streaming = 256"
  by (simp add: rx_elems_def n_elems_def hw_ok_def s_streaming_def init_def)

lemma rx_section_hw_ok: "\<exists>s'. rx_section hw_ok no_sigs s_streaming = Some (Cont () s')"
  by (rule rx_section_ok) (simp_all add: hw_ok_def s_streaming_def init_def)

lemma s_streaming_fields:
  "nrx s_streaming = 0" "trace s_streaming = []" "foutp s_streaming = 200"
  by (simp_all add: s_streaming_def init_def)

theorem C2_receive_phase_counts_witness:
  "\<exists>s'. rx_section hw_ok no_sigs s_streaming = Some (Cont () s')
     \<and> length (filter is_refill (trace s')) = 42
     \<and> length (filter (is_row 200) (trace s')) = 10240"
proof -
  from rx_section_hw_ok obtain s' where r: "rx_section hw_ok no_sigs s_streaming = Some (Cont () s')"
    by (rule exE)
  from C2_receive_phase_counts [OF r, of 256]
  have "length (filter is_refill (trace s')) = 42
     \<and> length (filter (is_row 200) (trace s')) = 10240"
    by (auto simp add: rx_elems_hw_ok s_streaming_fields simp del: sum.lessThan_Suc)
  with r show ?thesis
    by blast
qed

theorem C8_sample_counter_reports_witness:
  "\<exists>s'. rx_section hw_ok no_sigs s_streaming = Some (Cont () s')
     \<and> filter is_report (trace s')
          = [Printf DUMPED_FMT [ASize 512], Printf RECEIVED_FMT [ASize 10240]]
     \<and> nrx s' = 10240"
proof -
  from rx_section_hw_ok obtain s' where r: "rx_section hw_ok no_sigs s_streaming = Some (Cont () s')"
    by (rule exE)
  from C8_sample_counter_reports [OF r]
  have "filter is_report (trace s')
          = [Printf DUMPED_FMT [ASize 512], Printf RECEIVED_FMT [ASize 10240]]
     \<and> nrx s' = 10240"
    by (simp add: rx_elems_hw_ok s_streaming_fields del: sum.lessThan_Suc)
  with r show ?thesis
    by blast
qed

text \<open>
  The counter is not reset after the capture phase: with \<open>hw_ok\<close>, whose refills have 256
  elements each, it is 10240 when the receive section ends.
\<close>

theorem C8_no_reset_counterexample:
  "nrx_after (rx_section hw_ok no_sigs s_streaming) = Some 10240 \<and> (10240 :: 64 word) \<noteq> 0"
proof -
  from rx_section_hw_ok obtain s' where r: "rx_section hw_ok no_sigs s_streaming = Some (Cont () s')"
    by (rule exE)
  from r have "nrx s' = of_nat (\<Sum>j<40. rx_elems hw_ok (nrefill s_streaming + 2 + Suc j) s_streaming)"
    by (rule rx_section_counts)
  then have "nrx s' = 10240"
    by (simp add: rx_elems_hw_ok del: sum.lessThan_Suc)
  with r show ?thesis
    by (simp add: nrx_after_def final_def)
qed

subsection \<open>Where the loops touch memory\<close>

lemma accessed_simps [simp]:
  "accessed [] = []"
  "accessed (xs @ ys) = accessed xs @ accessed ys"
  "accessed (e # es) = access_addr e @ accessed es"
  by (simp_all add: accessed_def)

lemma accessed_sig_events [simp]: "accessed (sig_events sigs n) = []"
  by (simp add: sig_events_def split: option.split)

lemma accessed_shutdown_events [simp]: "accessed (shutdown_events s) = []"
  by (simp add: shutdown_events_def guarded_def)



lemma warmup_body_accessed:
  "accessed (trace (final (warmup_body sigs p s))) = accessed (trace s)"
  by (simp add: warmup_body_def Let_def final_def deliver_eq)




lemma accessed_prog [simp]: "accessed (prog tr) = accessed tr"
  by (induction tr) (auto simp add: prog_Cons elim: is_sig_msg.elims)

lemma accessed_erase: "accessed (trace (erase s)) = accessed (trace s)"
  by simp












subsection \<open>Buffer sizes\<close>

lemma n_elems_full:
  assumes "0 < inc"
  shows "n_elems p (p + int n * inc) inc = n"
proof (cases n)
  case 0
  then show ?thesis by (simp add: n_elems_def)
next
  case (Suc k)
  have "(inc - 1 + int n * inc) div inc = int n + (inc - 1) div inc"
    by (rule div_mult_self1) (use assms in simp)
  also have "(inc - 1) div inc = 0"
    using assms by (intro div_pos_pos_trivial) simp_all
  finally have "(p + int n * inc - p + inc - 1) div inc = int n"
    by (simp add: algebra_simps)
  moreover have "p < p + int n * inc"
    using assms Suc by simp
  ultimately show ?thesis
    by (simp add: n_elems_def)
qed

lemma main_buffers_eq:
  "main_buffers h tx rx s =
     (let rb = iio_device_create_buffer h rx 256 False;
          tb = iio_device_create_buffer h tx 1024 False;
          p = Printf ''* Creating non-cyclic IIO buffers\<newline>'' [];
          c_rx = Iio_device_create_buffer rx 256 False;
          c_tx = Iio_device_create_buffer tx 1024 False
      in if rb = 0
         then shutdown (s\<lparr>rxbuf := 0,
                trace := trace s @ [p, c_rx, Perror ''Could not create RX buffer'']\<rparr>)
         else if tb = 0
         then shutdown (s\<lparr>rxbuf := rb, txbuf := 0,
                trace := trace s @ [p, c_rx, c_tx, Perror ''Could not create TX buffer'']\<rparr>)
         else Cont () (s\<lparr>rxbuf := rb, txbuf := tb, trace := trace s @ [p, c_rx, c_tx]\<rparr>))"
  by (simp add: main_buffers_def Let_def bnd_def emit_def shutdown_eq shutdown_events_def)


lemma tx_section_rows:
  assumes "tx_section h sigs s = Some (Cont () s')"
  shows "length (filter (is_row (finp s)) (trace s')) = length (filter (is_row (finp s)) (trace s))
           + n_elems (iio_buffer_first h (nrefill s) (txbuf s) (tx0_i s))
               (iio_buffer_end h (nrefill s) (txbuf s)) (iio_buffer_step h (nrefill s) (txbuf s))"
    and "length (filter is_store (trace s')) = length (filter is_store (trace s))
           + 2 * n_elems (iio_buffer_first h (nrefill s) (txbuf s) (tx0_i s))
               (iio_buffer_end h (nrefill s) (txbuf s)) (iio_buffer_step h (nrefill s) (txbuf s))"
proof -
  note t = tx_section_Cont(1) [OF assms]
  have ro: "filter (is_row (finp s)) (trace s') = filter (is_row (finp s)) (prog (trace s'))"
    and ro0: "filter (is_row (finp s)) (prog (trace s)) = filter (is_row (finp s)) (trace s)"
    and st: "filter is_store (trace s') = filter is_store (prog (trace s'))"
    and st0: "filter is_store (prog (trace s)) = filter is_store (trace s)"
    by (simp_all add: filter_prog is_row_not_sig is_store_not_sig)
  show "length (filter (is_row (finp s)) (trace s')) = length (filter (is_row (finp s)) (trace s))
           + n_elems (iio_buffer_first h (nrefill s) (txbuf s) (tx0_i s))
               (iio_buffer_end h (nrefill s) (txbuf s)) (iio_buffer_step h (nrefill s) (txbuf s))"
    unfolding ro t
    by (simp add: ro0 length_filter_concat_map tx_events_def sum_list_triv)
  show "length (filter is_store (trace s')) = length (filter is_store (trace s))
           + 2 * n_elems (iio_buffer_first h (nrefill s) (txbuf s) (tx0_i s))
               (iio_buffer_end h (nrefill s) (txbuf s)) (iio_buffer_step h (nrefill s) (txbuf s))"
    unfolding st t
    by (simp add: st0 length_filter_concat_map tx_events_def sum_list_triv)
qed

text \<open>
  C10.  \<^verbatim>\<open>main\<close> asks for a receive buffer of 256 samples, then for a transmit buffer of
  \<^verbatim>\<open>256*4\<close> = 1024 samples, both non-cyclic, and these are the only buffers it creates.  A
  \<^verbatim>\<open>NULL\<close> answer to either request ends the run through \<^verbatim>\<open>shutdown\<close> (after the first,
  the second request is not made); otherwise the two handles are kept.  When the transmit
  buffer reports itself as 1024 elements of its step, a completed fill stores 1024 sample
  pairs and writes 1024 rows; when every refill reports 256 elements, a completed receive
  section writes \<open>40 * 256 = 10240\<close> rows to \<^verbatim>\<open>output.csv\<close>.
\<close>

theorem C10_buffer_sizing:
  "(let rb = iio_device_create_buffer h rx 256 False;
        tb = iio_device_create_buffer h tx 1024 False;
        r = main_buffers h tx rx s0
    in filter is_create (trace (final r)) = filter is_create (trace s0) @
         (if rb = 0 then [Iio_device_create_buffer rx 256 False]
          else [Iio_device_create_buffer rx 256 False, Iio_device_create_buffer tx 1024 False])
       \<and> (rb = 0 \<or> tb = 0 \<longrightarrow>
             halted r \<and> (\<exists>s1. r = shutdown s1) \<and> last (trace (final r)) = Exit 0)
       \<and> (rb \<noteq> 0 \<and> tb \<noteq> 0 \<longrightarrow>
             \<not> halted r \<and> rxbuf (final r) = rb \<and> txbuf (final r) = tb))
   \<and> (tx_section h sigs s = Some (Cont () s\<^sub>t)
        \<and> 0 < iio_buffer_step h (nrefill s) (txbuf s)
        \<and> iio_buffer_end h (nrefill s) (txbuf s)
             = iio_buffer_first h (nrefill s) (txbuf s) (tx0_i s)
               + 1024 * iio_buffer_step h (nrefill s) (txbuf s)
      \<longrightarrow> length (filter (is_row (finp s)) (trace s\<^sub>t))
             = length (filter (is_row (finp s)) (trace s)) + 1024
          \<and> length (filter is_store (trace s\<^sub>t)) = length (filter is_store (trace s)) + 2 * 1024)
   \<and> (rx_section h sigs s = Some (Cont () s\<^sub>r)
        \<and> (\<forall>k. 0 < iio_buffer_step h k (rxbuf s)
               \<and> iio_buffer_end h k (rxbuf s)
                    = iio_buffer_first h k (rxbuf s) (rx0_i s) + 256 * iio_buffer_step h k (rxbuf s))
      \<longrightarrow> length (filter (is_row (foutp s)) (trace s\<^sub>r))
             = length (filter (is_row (foutp s)) (trace s)) + 40 * 256)"
proof -
  have a: "(let rb = iio_device_create_buffer h rx 256 False;
        tb = iio_device_create_buffer h tx 1024 False;
        r = main_buffers h tx rx s0
    in filter is_create (trace (final r)) = filter is_create (trace s0) @
         (if rb = 0 then [Iio_device_create_buffer rx 256 False]
          else [Iio_device_create_buffer rx 256 False, Iio_device_create_buffer tx 1024 False])
       \<and> (rb = 0 \<or> tb = 0 \<longrightarrow>
             halted r \<and> (\<exists>s1. r = shutdown s1) \<and> last (trace (final r)) = Exit 0)
       \<and> (rb \<noteq> 0 \<and> tb \<noteq> 0 \<longrightarrow>
             \<not> halted r \<and> rxbuf (final r) = rb \<and> txbuf (final r) = tb))"
  proof -
    have c: "filter is_create (shutdown_events x) = []" for x
      by (simp add: shutdown_events_def guarded_def)
    have l: "last (trace (final (shutdown x :: unit res))) = Exit 0" for x
      by (simp add: shutdown_eq final_def shutdown_events_def)
    have hl: "halted (shutdown x :: unit res)" for x
      by (simp add: shutdown_eq halted_def)
    have f: "filter is_create (trace (final (shutdown x :: unit res))) = filter is_create (trace x)" for x
      by (simp add: shutdown_eq final_def c)
    show ?thesis
      unfolding main_buffers_eq Let_def
      by (auto simp add: f l hl) (simp_all add: final_def halted_def)
  qed
  have b: "length (filter (is_row (finp s)) (trace s\<^sub>t))
             = length (filter (is_row (finp s)) (trace s)) + 1024
          \<and> length (filter is_store (trace s\<^sub>t)) = length (filter is_store (trace s)) + 2 * 1024"
    if "tx_section h sigs s = Some (Cont () s\<^sub>t)"
      and "0 < iio_buffer_step h (nrefill s) (txbuf s)"
      and "iio_buffer_end h (nrefill s) (txbuf s)
             = iio_buffer_first h (nrefill s) (txbuf s) (tx0_i s)
               + 1024 * iio_buffer_step h (nrefill s) (txbuf s)"
  proof -
    have "n_elems (iio_buffer_first h (nrefill s) (txbuf s) (tx0_i s))
               (iio_buffer_end h (nrefill s) (txbuf s)) (iio_buffer_step h (nrefill s) (txbuf s)) = 1024"
      unfolding that(3) using n_elems_full [OF that(2), of _ 1024] by simp
    with tx_section_rows [OF that(1)] show ?thesis
      by simp
  qed
  have c: "length (filter (is_row (foutp s)) (trace s\<^sub>r))
             = length (filter (is_row (foutp s)) (trace s)) + 40 * 256"
    if "rx_section h sigs s = Some (Cont () s\<^sub>r)"
      and g: "\<forall>k. 0 < iio_buffer_step h k (rxbuf s)
               \<and> iio_buffer_end h k (rxbuf s)
                    = iio_buffer_first h k (rxbuf s) (rx0_i s) + 256 * iio_buffer_step h k (rxbuf s)"
  proof -
    have e: "rx_elems h k s = 256" for k
    proof -
      from g have "0 < iio_buffer_step h k (rxbuf s)"
        and "iio_buffer_end h k (rxbuf s)
                    = iio_buffer_first h k (rxbuf s) (rx0_i s) + int 256 * iio_buffer_step h k (rxbuf s)"
        by simp_all
      then show ?thesis
        unfolding rx_elems_def using n_elems_full [of "iio_buffer_step h k (rxbuf s)" _ 256]
        by (simp only:)
    qed
    from that(1) have "length (filter (is_row (foutp s)) (trace s\<^sub>r))
        = length (filter (is_row (foutp s)) (trace s)) + (\<Sum>j<40. rx_elems h (nrefill s + 2 + Suc j) s)"
      by (rule rx_section_counts)
    then show ?thesis
      unfolding e by simp
  qed
  from a b c show ?thesis
    by blast
qed


theorem C10_buffer_sizing_witness:
  "iio_device_create_buffer hw_ok 4 256 False \<noteq> 0
   \<and> iio_device_create_buffer hw_ok 3 1024 False \<noteq> 0
   \<and> \<not> halted (main_buffers hw_ok 3 4 init)
   \<and> rxbuf (final (main_buffers hw_ok 3 4 init)) = 104
   \<and> txbuf (final (main_buffers hw_ok 3 4 init)) = 103
   \<and> filter is_create (trace (final (main_buffers hw_ok 3 4 init)))
        = [Iio_device_create_buffer 4 256 False, Iio_device_create_buffer 3 1024 False]
   \<and> iio_device_create_buffer hw_no_buffer 4 256 False = 0
   \<and> halted (main_buffers hw_no_buffer 3 4 init)
   \<and> filter is_create (trace (final (main_buffers hw_no_buffer 3 4 init)))
        = [Iio_device_create_buffer 4 256 False]
   \<and> (\<exists>s1 s2. tx_section hw_ok no_sigs s_streaming = Some (Cont () s1)
         \<and> length (filter (is_row 201) (trace s1)) = 1024
         \<and> rx_section hw_ok no_sigs s_streaming = Some (Cont () s2)
         \<and> length (filter (is_row 200) (trace s2)) = 10240)"
proof -
  from tx_section_hw_ok obtain s1 where t: "tx_section hw_ok no_sigs s_streaming = Some (Cont () s1)"
    by (rule exE)
  from rx_section_hw_ok obtain s2 where r: "rx_section hw_ok no_sigs s_streaming = Some (Cont () s2)"
    by (rule exE)
  have g: "0 < iio_buffer_step hw_ok (nrefill s_streaming) (txbuf s_streaming)"
    "iio_buffer_end hw_ok (nrefill s_streaming) (txbuf s_streaming)
       = iio_buffer_first hw_ok (nrefill s_streaming) (txbuf s_streaming) (tx0_i s_streaming)
         + 1024 * iio_buffer_step hw_ok (nrefill s_streaming) (txbuf s_streaming)"
    "\<forall>k. 0 < iio_buffer_step hw_ok k (rxbuf s_streaming)
        \<and> iio_buffer_end hw_ok k (rxbuf s_streaming)
             = iio_buffer_first hw_ok k (rxbuf s_streaming) (rx0_i s_streaming)
               + 256 * iio_buffer_step hw_ok k (rxbuf s_streaming)"
    by (simp_all add: hw_ok_def s_streaming_def init_def)
  have f: "finp s_streaming = 201" "foutp s_streaming = 200" "trace s_streaming = []" "trace init = []"
    by (simp_all add: s_streaming_def init_def)
  have v: "iio_device_create_buffer hw_ok 4 256 False = 104"
    "iio_device_create_buffer hw_ok 3 1024 False = 103"
    "iio_device_create_buffer hw_no_buffer 4 256 False = 0"
    by (simp_all add: hw_ok_def hw_no_buffer_def)
  note c1 = C10_buffer_sizing [of hw_ok 4 3 init no_sigs s_streaming s1 s2, unfolded Let_def v f]
  note c2 = C10_buffer_sizing [of hw_no_buffer 4 3 init no_sigs s_streaming s1 s2, unfolded Let_def v f,
      THEN conjunct1]
  from c1 t r g f have "length (filter (is_row 201) (trace s1)) = 1024"
    "length (filter (is_row 200) (trace s2)) = 10240"
    by simp_all
  with t r c1 c2 v show ?thesis
    by (simp add: exI [of _ s1])
qed

subsection \<open>The capture row\<close>

text \<open>
  The sum of the two squares is computed in \<^verbatim>\<open>int\<close>.  It is the mathematical sum for
  every pair of samples but one.
\<close>

lemma sint16_range: "- 32768 \<le> sint (w :: 16 word) \<and> sint w \<le> 32767"
  using sint_ge [of w] sint_lt [of w] by simp

lemma sq_bound:
  assumes "- 32768 \<le> (x :: int)" "x \<le> 32767"
  shows "x * x \<le> 1073741824" and "x \<noteq> - 32768 \<Longrightarrow> x * x \<le> 1073676289"
proof -
  have "\<bar>x\<bar> \<le> 32768"
    using assms by simp
  then have "\<bar>x\<bar> * \<bar>x\<bar> \<le> 32768 * 32768"
    by (intro mult_mono) simp_all
  then show "x * x \<le> 1073741824"
    by (simp add: abs_mult_self_eq)
  assume "x \<noteq> - 32768"
  then have "\<bar>x\<bar> \<le> 32767"
    using assms by simp
  then have "\<bar>x\<bar> * \<bar>x\<bar> \<le> 32767 * 32767"
    by (intro mult_mono) simp_all
  then show "x * x \<le> 1073676289"
    by (simp add: abs_mult_self_eq)
qed

lemma radicand_exact:
  assumes "\<not> (i = - 32768 \<and> q = - 32768)"
  shows "sint (radicand i q) = sint i * sint i + sint q * sint q"
proof -
  let ?x = "sint i" and ?y = "sint q"
  note ri = sint16_range [of i] and rq = sint16_range [of q]
  have ne: "?x \<noteq> - 32768 \<or> ?y \<noteq> - 32768"
  proof (rule ccontr)
    assume "\<not> (?x \<noteq> - 32768 \<or> ?y \<noteq> - 32768)"
    then have "sint i = sint (- 32768 :: 16 word)" "sint q = sint (- 32768 :: 16 word)"
      by simp_all
    then have "i = - 32768" "q = - 32768"
      by (simp_all only: word_eq_iff_signed [where ?'a = int])
    with assms show False by simp
  qed
  have "?x * ?x + ?y * ?y < 2147483648"
    using ne sq_bound [of ?x] sq_bound [of ?y] ri rq by auto
  moreover have "- 2147483648 \<le> ?x * ?x + ?y * ?y"
  proof -
    have "0 \<le> ?x * ?x" "0 \<le> ?y * ?y"
      by simp_all
    then show ?thesis
      by linarith
  qed
  ultimately have "signed_take_bit 31 (?x * ?x + ?y * ?y) = ?x * ?x + ?y * ?y"
    by (intro signed_take_bit_int_eq_self) simp_all
  moreover have "sint (radicand i q) = signed_take_bit 31 (?x * ?x + ?y * ?y)"
    unfolding radicand_def
    by (simp add: sint_word_ariths sint_up_scast is_up signed_take_bit_add signed_take_bit_mult)
  ultimately show ?thesis
    by simp
qed

text \<open>
  C3.  For the pair \<open>I = Q = -32768\<close> the sum \<open>I\<^sup>2 + Q\<^sup>2\<close> is \<open>2\<^sup>3\<^sup>1\<close>, which no \<^verbatim>\<open>int\<close>
  holds.  C leaves the overflow undefined; with the wrap-around of two's complement, which the
  32-bit words here have, the row the capture loop writes for it has the magnitude argument
  \<^verbatim>\<open>sqrt(-2147483648)\<close>, not \<^verbatim>\<open>sqrt(2147483648)\<close>.  (The phase is computed from the two
  samples converted to \<^verbatim>\<open>double\<close> first, and is not affected.)
\<close>

theorem C3_magnitude_overflow:
  "sint (radicand (- 32768) (- 32768)) = - 2147483648
   \<and> sint (- 32768 :: 16 word) * sint (- 32768 :: 16 word)
       + sint (- 32768 :: 16 word) * sint (- 32768 :: 16 word) = 2147483648
   \<and> trace (final (capture_body no_sigs 0 (s_streaming\<lparr>mem := mem_min\<rparr>)))
       = [Load16 0, Load16 2,
          Fprintf 200 ROW_FMT [AInt (- 32768), AInt (- 32768), ADbl (Sqrt_of (- 2147483648)),
                               ADbl (Phase_deg_of (- 32768) (- 32768))]]"
proof -
  have a: "sint (radicand (- 32768) (- 32768)) = - 2147483648"
    by (simp add: radicand_def)
  have "trace (final (capture_body no_sigs 0 (s_streaming\<lparr>mem := mem_min\<rparr>)))
       = capture_events 200 mem_min 0"
    by (simp add: capture_body_eq final_def deliver_eq sig_events_def no_sigs_def s_streaming_def
        init_def)
  then show ?thesis
    using a by (simp add: capture_events_def mem_min_def)
qed

end
